theory Spec2Isabelle
  imports Complex_Main "HOL-Library.FSet"
begin

section \<open>Diff coverage: the correlation engine and the command-line tool\<close>

text \<open>
  The development has two parts. The first is the correlation engine (changed lines joined
  with per-line coverage status, percentages, merging of coverage inputs). The code of the
  engine is not part of \<^verbatim>\<open>diff_cover_tool.py\<close>; its definitions here follow the
  written specification and say so. The second part is the command-line tool itself
  (\<^verbatim>\<open>parse_coverage_args\<close>, \<^verbatim>\<open>generate_coverage_report\<close>, \<^verbatim>\<open>main\<close>), translated
  from the source.
\<close>

subsection \<open>Errors\<close>

text \<open>Every way in which the Python code stops without returning a value.\<close>

datatype error =
    ZeroDivisionError
  | ValueError string
  | IOError string
  | ParseError string
  | CollaboratorError string
  | UsageError string
  | HelpExit

subsection \<open>Data model of the engine\<close>

datatype line_status = COVERED | UNCOVERED

text \<open>
  Modelled from the spec: the CoverageRecord's \<^verbatim>\<open>line_status\<close>, a sparse mapping from
  line number to status, absence meaning NOT\_TRACKED (the record type is not in the source).
\<close>

type_synonym coverage_record = "nat \<rightharpoonup> line_status"

text \<open>
  Modelled from the spec: ChangedFile, with its (finite) set of added line numbers and the
  two flags (the type is not in the source).
\<close>

record changed_file =
  added_line_numbers :: "nat fset"
  is_new_file :: bool
  is_deleted :: bool

text \<open>
  Modelled from the spec: FileCoverageResult. The percentage is the result of a computation
  that could fault, so it is kept as a sum.
\<close>

record file_coverage_result =
  violation_lines :: "nat list"
  trackable_changed_count :: nat
  covered_changed_count :: nat
  percent_covered :: "error + real"

record total_result =
  total_trackable_changed :: nat
  total_covered_changed :: nat
  total_percent_covered :: "error + real"

subsection \<open>Percentages\<close>

text \<open>Python's true division of two numbers: a zero divisor raises.\<close>

definition py_truediv :: "real \<Rightarrow> real \<Rightarrow> error + real" where
  "py_truediv a b = (if b = 0 then Inl ZeroDivisionError else Inr (a / b))"

text \<open>
  Modelled from the spec: \<^verbatim>\<open>percent_covered = covered_count / trackable_count * 100\<close>, with
  the vacuous-100\% rule when the trackable count is zero (section 4.3, step 4; the
  function that computes it is not in the source). The ratio is taken over the reals.
\<close>

definition percent_of :: "nat \<Rightarrow> nat \<Rightarrow> error + real" where
  "percent_of covered trackable =
     (if trackable = 0 then Inr 100
      else (case py_truediv (real covered) (real trackable) of
              Inl e \<Rightarrow> Inl e
            | Inr q \<Rightarrow> Inr (q * 100)))"

subsection \<open>Correlation\<close>

text \<open>
  Modelled from the spec: \<^verbatim>\<open>correlate\<close> (section 4.3, steps 1 to 4; not in the source).
  Step 1 intersects the added lines with the tracked lines, step 2 partitions them, step 3
  lists the uncovered ones in ascending order, step 4 computes the percentage.
\<close>

definition trackable_lines :: "changed_file \<Rightarrow> coverage_record \<Rightarrow> nat fset" where
  "trackable_lines cf cr = ffilter (\<lambda>l. cr l \<noteq> None) (added_line_numbers cf)"

definition covered_lines :: "changed_file \<Rightarrow> coverage_record \<Rightarrow> nat fset" where
  "covered_lines cf cr = ffilter (\<lambda>l. cr l = Some COVERED) (trackable_lines cf cr)"

definition uncovered_lines :: "changed_file \<Rightarrow> coverage_record \<Rightarrow> nat fset" where
  "uncovered_lines cf cr = ffilter (\<lambda>l. cr l = Some UNCOVERED) (trackable_lines cf cr)"

definition correlate :: "changed_file \<Rightarrow> coverage_record \<Rightarrow> file_coverage_result" where
  "correlate cf cr =
     \<lparr> violation_lines = sorted_list_of_fset (uncovered_lines cf cr),
       trackable_changed_count = fcard (trackable_lines cf cr),
       covered_changed_count = fcard (covered_lines cf cr),
       percent_covered = percent_of (fcard (covered_lines cf cr)) (fcard (trackable_lines cf cr)) \<rparr>"

text \<open>
  Modelled from the spec: \<^verbatim>\<open>aggregate\<close> (section 4.3, "Aggregation"; not in the source):
  sum the counts of the per-file results, then apply the same ratio rule.
\<close>

definition aggregate :: "file_coverage_result list \<Rightarrow> total_result" where
  "aggregate rs =
     \<lparr> total_trackable_changed = sum_list (map trackable_changed_count rs),
       total_covered_changed = sum_list (map covered_changed_count rs),
       total_percent_covered =
         percent_of (sum_list (map covered_changed_count rs))
                    (sum_list (map trackable_changed_count rs)) \<rparr>"

text \<open>The per-file results of a run: one per path present in both inputs.\<close>

definition correlate_all ::
  "(string \<times> changed_file) list \<Rightarrow> (string \<rightharpoonup> coverage_record) \<Rightarrow> file_coverage_result list" where
  "correlate_all changed cov =
     concat (map (\<lambda>(p, cf). case cov p of None \<Rightarrow> [] | Some cr \<Rightarrow> [correlate cf cr]) changed)"

subsection \<open>Merging coverage inputs\<close>

text \<open>
  Modelled from the spec: the "covered wins" merge of section 4.2 (not in the source). Two
  statuses of one line are merged first, then two records line by line, then a list of
  coverage inputs for one resolved path from the empty record.
\<close>

fun merge_status :: "line_status option \<Rightarrow> line_status option \<Rightarrow> line_status option" where
  "merge_status (Some COVERED) _ = Some COVERED"
| "merge_status _ (Some COVERED) = Some COVERED"
| "merge_status (Some UNCOVERED) _ = Some UNCOVERED"
| "merge_status _ (Some UNCOVERED) = Some UNCOVERED"
| "merge_status None None = None"

definition merge2 :: "coverage_record \<Rightarrow> coverage_record \<Rightarrow> coverage_record" where
  "merge2 a b = (\<lambda>l. merge_status (a l) (b l))"

definition merge_coverage :: "coverage_record list \<Rightarrow> coverage_record" where
  "merge_coverage inputs = foldl merge2 Map.empty inputs"

subsection \<open>Python values used by the tool\<close>

text \<open>
  A Python float: a finite value (kept as the real number it denotes), the two infinities
  and NaN. Only comparisons of floats occur in the tool, and those are exact.
\<close>

datatype pyfloat = Fin real | PosInf | NegInf | NaN

text \<open>The comparison \<^verbatim>\<open>a >= b\<close> of two floats: false as soon as one side is NaN.\<close>

fun py_ge :: "pyfloat \<Rightarrow> pyfloat \<Rightarrow> bool" where
  "py_ge NaN _ = False"
| "py_ge _ NaN = False"
| "py_ge PosInf _ = True"
| "py_ge _ NegInf = True"
| "py_ge NegInf _ = False"
| "py_ge (Fin a) PosInf = False"
| "py_ge (Fin a) (Fin b) = (b \<le> a)"

text \<open>The comparison \<^verbatim>\<open>a < b\<close>: "strictly below".\<close>

fun py_lt :: "pyfloat \<Rightarrow> pyfloat \<Rightarrow> bool" where
  "py_lt NaN _ = False"
| "py_lt _ NaN = False"
| "py_lt _ NegInf = False"
| "py_lt NegInf _ = True"
| "py_lt PosInf _ = False"
| "py_lt (Fin a) PosInf = True"
| "py_lt (Fin a) (Fin b) = (a < b)"

subsection \<open>The argument parser built by \<^verbatim>\<open>parse_coverage_args\<close>\<close>

text \<open>
  \<^verbatim>\<open>parse_coverage_args\<close> builds an \<^verbatim>\<open>argparse.ArgumentParser\<close> with one positional
  argument (\<^verbatim>\<open>coverage_xml\<close>, \<^verbatim>\<open>nargs='+'\<close>) and eight options, to which the library
  adds \<^verbatim>\<open>-h/--help\<close>. The definitions below are the library's parsing algorithm
  (\<^verbatim>\<open>_parse_optional\<close>, \<^verbatim>\<open>_get_option_tuples\<close>, \<^verbatim>\<open>_match_argument\<close>,
  \<^verbatim>\<open>consume_optional\<close>, \<^verbatim>\<open>consume_positionals\<close>, the main loop of
  \<^verbatim>\<open>_parse_known_args\<close>, \<^verbatim>\<open>parse_args\<close>, as in CPython 3.11) instantiated to that parser.
  Strings are byte strings; the prefix character is \<^verbatim>\<open>-\<close>.
\<close>

datatype opt_action =
    Help | HtmlReport | ExternalCssFile | CompareBranch | FailUnder
  | IgnoreStaged | IgnoreUnstaged | Exclude | SrcRoots

text \<open>The option strings in the order of the \<^verbatim>\<open>add_argument\<close> calls (help first).\<close>

definition option_string_actions :: "(string \<times> opt_action) list" where
  "option_string_actions =
     [(''-h'', Help), (''--help'', Help),
      (''--html-report'', HtmlReport),
      (''--external-css-file'', ExternalCssFile),
      (''--compare-branch'', CompareBranch),
      (''--fail-under'', FailUnder),
      (''--ignore-staged'', IgnoreStaged),
      (''--ignore-unstaged'', IgnoreUnstaged),
      (''--exclude'', Exclude),
      (''--src-roots'', SrcRoots)]"

text \<open>
  \<^verbatim>\<open>nargs\<close> of each option: \<^verbatim>\<open>None\<close> (exactly one argument), \<^verbatim>\<open>0\<close> (help and the
  \<^verbatim>\<open>store_true\<close> flags) or \<^verbatim>\<open>'+'\<close>.
\<close>

datatype nargs = N_None | N_Zero | N_Plus

fun nargs_of :: "opt_action \<Rightarrow> nargs" where
  "nargs_of Help = N_Zero"
| "nargs_of HtmlReport = N_None"
| "nargs_of ExternalCssFile = N_None"
| "nargs_of CompareBranch = N_None"
| "nargs_of FailUnder = N_None"
| "nargs_of IgnoreStaged = N_Zero"
| "nargs_of IgnoreUnstaged = N_Zero"
| "nargs_of Exclude = N_Plus"
| "nargs_of SrcRoots = N_Plus"

text \<open>\<^verbatim>\<open>s.startswith(p)\<close> and \<^verbatim>\<open>s.partition('=')\<close>.\<close>

definition startswith :: "string \<Rightarrow> string \<Rightarrow> bool" where
  "startswith s p = (take (length p) s = p)"

definition partition_eq :: "string \<Rightarrow> string \<times> string \<times> string" where
  "partition_eq s =
     (let h = takeWhile (\<lambda>c. c \<noteq> CHR ''='') s; r = dropWhile (\<lambda>c. c \<noteq> CHR ''='') s
      in if r = [] then (s, [], []) else (h, ''='', tl r))"

text \<open>
  An option tuple: the action (\<^verbatim>\<open>None\<close> for an unknown option), the option string, the
  separator and the explicit argument.
\<close>

type_synonym option_tuple = "opt_action option \<times> string \<times> string option \<times> string option"

text \<open>\<^verbatim>\<open>_get_option_tuples\<close>, called on strings of length at least two that start with \<^verbatim>\<open>-\<close>.\<close>

definition get_option_tuples :: "string \<Rightarrow> option_tuple list" where
  "get_option_tuples option_string =
     (if option_string ! 1 = CHR ''-'' then
        (let (option_prefix, sep, explicit_arg) = partition_eq option_string;
             sep' = (if sep = [] then None else Some sep);
             explicit_arg' = (if sep = [] then None else Some explicit_arg)
         in map (\<lambda>(os, a). (Some a, os, sep', explicit_arg'))
              (filter (\<lambda>(os, a). startswith os option_prefix) option_string_actions))
      else
        (let option_prefix = option_string;
             short_option_prefix = take 2 option_string;
             short_explicit_arg = drop 2 option_string
         in concat (map (\<lambda>(os, a).
                      if os = short_option_prefix then [(Some a, os, Some [], Some short_explicit_arg)]
                      else if startswith os option_prefix then [(Some a, os, None, None)]
                      else [])
              option_string_actions)))"

text \<open>
  The negative-number matcher \<^verbatim>\<open>'^-\d+$|^-\d*\.\d+$'\<close>; \<^verbatim>\<open>$\<close> also matches before one
  final newline.
\<close>

definition is_digit :: "char \<Rightarrow> bool" where
  "is_digit c = (c \<in> set ''0123456789'')"

definition negative_number_body :: "string \<Rightarrow> bool" where
  "negative_number_body s =
     (case s of
        [] \<Rightarrow> False
      | c # r \<Rightarrow>
          c = CHR ''-'' \<and>
          ((r \<noteq> [] \<and> list_all is_digit r) \<or>
           (let f = dropWhile is_digit r
            in f \<noteq> [] \<and> hd f = CHR ''.'' \<and> tl f \<noteq> [] \<and> list_all is_digit (tl f))))"

definition negative_number_matcher :: "string \<Rightarrow> bool" where
  "negative_number_matcher s =
     (negative_number_body s \<or> (s \<noteq> [] \<and> last s = CHR 0x0A \<and> negative_number_body (butlast s)))"

text \<open>
  \<^verbatim>\<open>_parse_optional\<close>: \<^verbatim>\<open>None\<close> for a string meant as a positional, an option tuple
  otherwise; an ambiguous abbreviation is a usage error. No option of this parser looks
  like a negative number.
\<close>

definition parse_optional :: "string \<Rightarrow> error + option_tuple option" where
  "parse_optional arg_string =
     (if arg_string = [] then Inr None
      else if hd arg_string \<noteq> CHR ''-'' then Inr None
      else (case map_of option_string_actions arg_string of
              Some a \<Rightarrow> Inr (Some (Some a, arg_string, None, None))
            | None \<Rightarrow>
                if length arg_string = 1 then Inr None
                else
                  (let (option_string, sep, explicit_arg) = partition_eq arg_string
                   in (case (if sep \<noteq> [] then map_of option_string_actions option_string else None) of
                         Some a \<Rightarrow> Inr (Some (Some a, option_string, Some sep, Some explicit_arg))
                       | None \<Rightarrow>
                           (let option_tuples = get_option_tuples arg_string
                            in if length option_tuples > 1 then Inl (UsageError ''ambiguous option'')
                               else if length option_tuples = 1 then Inr (Some (hd option_tuples))
                               else if negative_number_matcher arg_string then Inr None
                               else if CHR '' '' \<in> set arg_string then Inr None
                               else Inr (Some (None, arg_string, None, None)))))))"

text \<open>
  The pattern of the argument strings: \<^verbatim>\<open>O\<close> for an option, \<^verbatim>\<open>A\<close> for an argument,
  \<^verbatim>\<open>-\<close> for the first \<^verbatim>\<open>--\<close>, after which everything is an argument. Each string is kept
  with its pattern character and, for an option, its tuple.
\<close>

datatype pat = PA | PO option_tuple | PDash

fun classify :: "string list \<Rightarrow> error + (string \<times> pat) list" where
  "classify [] = Inr []"
| "classify (a # as) =
     (if a = ''--'' then Inr ((a, PDash) # map (\<lambda>s. (s, PA)) as)
      else (case parse_optional a of
              Inl e \<Rightarrow> Inl e
            | Inr t \<Rightarrow>
                (case classify as of
                   Inl e \<Rightarrow> Inl e
                 | Inr r \<Rightarrow> Inr ((a, (case t of None \<Rightarrow> PA | Some tup \<Rightarrow> PO tup)) # r))))"

text \<open>
  The namespace while parsing, with the defaults of the \<^verbatim>\<open>add_argument\<close> calls.
  \<^verbatim>\<open>ns_coverage_xml\<close> is \<^verbatim>\<open>None\<close> until the positional has been taken;
  \<^verbatim>\<open>ns_fail_under\<close> is \<^verbatim>\<open>None\<close> as long as it holds the unconverted default, the string
  \<^verbatim>\<open>'0'\<close>. \<^verbatim>\<open>extras\<close> collects the strings no action has taken.
\<close>

record pstate =
  ns_coverage_xml :: "string list option"
  ns_html_report :: "string option"
  ns_external_css_file :: "string option"
  ns_compare_branch :: string
  ns_fail_under :: "pyfloat option"
  ns_ignore_staged :: bool
  ns_ignore_unstaged :: bool
  ns_exclude :: "string list option"
  ns_src_roots :: "string list"
  extras :: "string list"

definition initial_namespace :: pstate where
  "initial_namespace =
     \<lparr> ns_coverage_xml = None,
       ns_html_report = None,
       ns_external_css_file = None,
       ns_compare_branch = ''origin/master'',
       ns_fail_under = None,
       ns_ignore_staged = False,
       ns_ignore_unstaged = False,
       ns_exclude = None,
       ns_src_roots = [''src/main/java'', ''src/test/java''],
       extras = [] \<rparr>"

fun is_PA :: "pat \<Rightarrow> bool" where
  "is_PA PA = True"
| "is_PA _ = False"

fun is_PO :: "pat \<Rightarrow> bool" where
  "is_PO (PO _) = True"
| "is_PO _ = False"

fun is_PDash :: "pat \<Rightarrow> bool" where
  "is_PDash PDash = True"
| "is_PDash _ = False"

text \<open>
  \<^verbatim>\<open>_match_argument\<close> for an option. The patterns of \<^verbatim>\<open>_get_nargs_pattern\<close>, with the
  dashes removed as for every option, are \<^verbatim>\<open>(A)\<close>, \<^verbatim>\<open>()\<close> and \<^verbatim>\<open>(A[A]*)\<close>. The result
  is the number of argument strings matched.
\<close>

definition match_argument :: "nargs \<Rightarrow> pat list \<Rightarrow> error + nat" where
  "match_argument n ps =
     (case n of
        N_Zero \<Rightarrow> Inr 0
      | N_None \<Rightarrow>
          (case ps of
             PA # r \<Rightarrow> Inr 1
           | _ \<Rightarrow> Inl (UsageError ''expected one argument''))
      | N_Plus \<Rightarrow>
          (case ps of
             PA # r \<Rightarrow> Inr (Suc (length (takeWhile is_PA r)))
           | _ \<Rightarrow> Inl (UsageError ''expected at least one argument'')))"

text \<open>
  \<^verbatim>\<open>_match_arguments_partial\<close> for the one positional, whose pattern is
  \<^verbatim>\<open>(-*A[A-]*)\<close>: the number of strings matched, or \<^verbatim>\<open>None\<close> without a match.
\<close>

definition match_positional :: "pat list \<Rightarrow> nat option" where
  "match_positional ps =
     (let d = takeWhile is_PDash ps; r = dropWhile is_PDash ps
      in (case r of
            PA # r' \<Rightarrow> Some (length d + 1 + length (takeWhile (\<lambda>p. is_PA p \<or> is_PDash p) r'))
          | _ \<Rightarrow> None))"

text \<open>
  \<^verbatim>\<open>consume_positionals\<close>: once \<^verbatim>\<open>coverage_xml\<close> has been taken the list of positionals
  is empty and nothing is consumed. Otherwise the matched strings, the first \<^verbatim>\<open>--\<close>
  removed (\<^verbatim>\<open>_get_values\<close>), become the value. The result is the new state and the number
  of strings consumed.
\<close>

definition consume_positionals :: "pstate \<Rightarrow> (string \<times> pat) list \<Rightarrow> pstate \<times> nat" where
  "consume_positionals st rest =
     (if ns_coverage_xml st \<noteq> None then (st, 0)
      else (case match_positional (map snd rest) of
              None \<Rightarrow> (st, 0)
            | Some k \<Rightarrow>
                (st\<lparr>ns_coverage_xml := Some (remove1 ''--'' (map fst (take k rest)))\<rparr>, k)))"

text \<open>
  \<^verbatim>\<open>take_action\<close> for an option: \<^verbatim>\<open>_get_values\<close> converts the argument strings
  (\<^verbatim>\<open>type=str\<close> leaves them, \<^verbatim>\<open>type=float\<close> calls the builtin \<^verbatim>\<open>float\<close>, here the
  parameter \<open>fl\<close>, and a string it rejects is a usage error), then the action stores the
  value. The help action prints the help and exits.
\<close>

fun take_action :: "(string \<Rightarrow> pyfloat option) \<Rightarrow> pstate \<Rightarrow> opt_action \<Rightarrow> string list \<Rightarrow> error + pstate" where
  "take_action fl st Help args = Inl HelpExit"
| "take_action fl st HtmlReport [v] = Inr (st\<lparr>ns_html_report := Some v\<rparr>)"
| "take_action fl st ExternalCssFile [v] = Inr (st\<lparr>ns_external_css_file := Some v\<rparr>)"
| "take_action fl st CompareBranch [v] = Inr (st\<lparr>ns_compare_branch := v\<rparr>)"
| "take_action fl st FailUnder [v] =
     (case fl v of
        None \<Rightarrow> Inl (UsageError ''invalid float value'')
      | Some f \<Rightarrow> Inr (st\<lparr>ns_fail_under := Some f\<rparr>))"
| "take_action fl st IgnoreStaged args = Inr (st\<lparr>ns_ignore_staged := True\<rparr>)"
| "take_action fl st IgnoreUnstaged args = Inr (st\<lparr>ns_ignore_unstaged := True\<rparr>)"
| "take_action fl st Exclude args = Inr (st\<lparr>ns_exclude := Some args\<rparr>)"
| "take_action fl st SrcRoots args = Inr (st\<lparr>ns_src_roots := args\<rparr>)"
| "take_action fl st _ args = Inl (UsageError ''expected one argument'')"

fun take_actions :: "(string \<Rightarrow> pyfloat option) \<Rightarrow> pstate \<Rightarrow> (opt_action \<times> string list) list \<Rightarrow> error + pstate" where
  "take_actions fl st [] = Inr st"
| "take_actions fl st ((a, args) # ts) =
     (case take_action fl st a args of
        Inl e \<Rightarrow> Inl e
      | Inr st' \<Rightarrow> take_actions fl st' ts)"

text \<open>
  The inner loop of \<^verbatim>\<open>consume_optional\<close>. Without an explicit argument the option's
  arguments are matched against the pattern of the following strings. With one, an option
  of one or more arguments takes it; a single-dash option without arguments hands the rest
  of the string on as further single-dash options; anything else is a usage error. The
  result is the action tuples, the strings added to \<^verbatim>\<open>extras\<close> and the number of
  following strings consumed.
\<close>

function consume_chain ::
  "opt_action \<Rightarrow> string \<Rightarrow> string option \<Rightarrow> string option \<Rightarrow> (string \<times> pat) list \<Rightarrow>
   (opt_action \<times> string list) list \<Rightarrow> error + ((opt_action \<times> string list) list \<times> string list \<times> nat)" where
  "consume_chain action option_string sep None following acc =
     (case match_argument (nargs_of action) (map snd following) of
        Inl e \<Rightarrow> Inl e
      | Inr c \<Rightarrow> Inr (acc @ [(action, map fst (take c following))], [], c))"
| "consume_chain action option_string sep (Some explicit_arg) following acc =
     (case match_argument (nargs_of action) [PA] of
        Inl e \<Rightarrow> Inl e
      | Inr arg_count \<Rightarrow>
          if arg_count = 0 \<and> option_string ! 1 \<noteq> CHR ''-'' \<and> explicit_arg \<noteq> [] then
            (if (sep \<noteq> None \<and> sep \<noteq> Some []) \<or> hd explicit_arg = CHR ''-'' then
               Inl (UsageError ''ignored explicit argument'')
             else
               (case map_of option_string_actions [CHR ''-'', hd explicit_arg] of
                  Some action' \<Rightarrow>
                    if tl explicit_arg = [] then
                      consume_chain action' [CHR ''-'', hd explicit_arg] None None following
                        (acc @ [(action, [])])
                    else if hd (tl explicit_arg) = CHR ''='' then
                      consume_chain action' [CHR ''-'', hd explicit_arg] (Some ''='')
                        (Some (tl (tl explicit_arg))) following (acc @ [(action, [])])
                    else
                      consume_chain action' [CHR ''-'', hd explicit_arg] (Some [])
                        (Some (tl explicit_arg)) following (acc @ [(action, [])])
                | None \<Rightarrow> Inr (acc @ [(action, [])], [CHR ''-'' # explicit_arg], 0)))
          else if arg_count = 1 then Inr (acc @ [(action, [explicit_arg])], [], 0)
          else Inl (UsageError ''ignored explicit argument''))"
  by pat_completeness auto
termination
  by (relation "measure (\<lambda>(a, os, sep, ea, f, acc). case ea of None \<Rightarrow> 0 | Some e \<Rightarrow> Suc (length e))")
     auto

text \<open>
  \<^verbatim>\<open>consume_optional\<close> at an option string \<open>s\<close> with tuple \<open>tup\<close>, followed by
  \<open>following\<close>: an unknown option goes to \<^verbatim>\<open>extras\<close>; otherwise the actions found by the
  inner loop are taken in order.
\<close>

definition consume_optional ::
  "(string \<Rightarrow> pyfloat option) \<Rightarrow> pstate \<Rightarrow> option_tuple \<Rightarrow> string \<Rightarrow> (string \<times> pat) list \<Rightarrow>
   error + (pstate \<times> nat)" where
  "consume_optional fl st tup s following =
     (case tup of
        (None, option_string, sep, explicit_arg) \<Rightarrow> Inr (st\<lparr>extras := extras st @ [s]\<rparr>, 0)
      | (Some action, option_string, sep, explicit_arg) \<Rightarrow>
          (case consume_chain action option_string sep explicit_arg following [] of
             Inl e \<Rightarrow> Inl e
           | Inr (action_tuples, ex, c) \<Rightarrow>
               (case take_actions fl (st\<lparr>extras := extras st @ ex\<rparr>) action_tuples of
                  Inl e \<Rightarrow> Inl e
                | Inr st' \<Rightarrow> Inr (st', c))))"

text \<open>
  The main loop of \<^verbatim>\<open>_parse_known_args\<close>, on the strings from \<^verbatim>\<open>start_index\<close> on. While
  an option string is left: positionals before it are consumed if any can be; otherwise
  the strings before the option go to \<^verbatim>\<open>extras\<close> and the option is consumed. After the
  last option the positionals are tried once more and what is left goes to \<^verbatim>\<open>extras\<close>.
\<close>

function parse_loop ::
  "(string \<Rightarrow> pyfloat option) \<Rightarrow> pstate \<Rightarrow> (string \<times> pat) list \<Rightarrow> error + pstate" where
  "parse_loop fl st rest =
     (if \<not> list_ex (\<lambda>p. is_PO (snd p)) rest then
        (case consume_positionals st rest of
           (st', k) \<Rightarrow> Inr (st'\<lparr>extras := extras st' @ map fst (drop k rest)\<rparr>))
      else
        (let n = length (takeWhile (\<lambda>p. \<not> is_PO (snd p)) rest)
         in if n \<noteq> 0 \<and> 0 < snd (consume_positionals st rest) then
              parse_loop fl (fst (consume_positionals st rest))
                (drop (snd (consume_positionals st rest)) rest)
            else
              (let st1 = (if n \<noteq> 0 then st\<lparr>extras := extras st @ map fst (take n rest)\<rparr> else st)
               in (case drop n rest of
                     (s, PO tup) # following \<Rightarrow>
                       (case consume_optional fl st1 tup s following of
                          Inl e \<Rightarrow> Inl e
                        | Inr (st2, c) \<Rightarrow> parse_loop fl st2 (drop c following))
                   | _ \<Rightarrow> Inr st1))))"
  by pat_completeness auto
termination
  apply (relation "measure (\<lambda>(fl, st, rest). length rest)")
    apply simp
  subgoal for fl st rest n
    by (cases rest) auto
  subgoal premises prems for fl st rest n st1 x21 x22
  proof -
    from prems have "drop n rest = x21 # x22"
      by simp
    then have "length (drop n rest) = Suc (length x22)"
      by simp
    then have "length x22 < length rest"
      by simp
    with prems show ?thesis
      by simp
  qed
  done

declare parse_loop.simps [simp del]

text \<open>
  The shape of a classified argument list, as \<^verbatim>\<open>classify\<close> produces it: before the first
  \<^verbatim>\<open>--\<close> no argument is the string \<^verbatim>\<open>--\<close>, and after it everything is an argument. The
  parse loop only ever cuts such a list before its \<^verbatim>\<open>--\<close>.
\<close>

fun wf_args :: "(string \<times> pat) list \<Rightarrow> bool" where
  "wf_args [] = True"
| "wf_args ((s, PDash) # r) = list_all (\<lambda>p. snd p = PA) r"
| "wf_args ((s, PA) # r) = (s \<noteq> ''--'' \<and> wf_args r)"
| "wf_args ((s, PO t) # r) = wf_args r"

text \<open>
  The source roots a command line supplies, read off its classified argument list: the
  arguments of the last \<^verbatim>\<open>--src-roots\<close> option (the strings that follow it up to the next
  option, or the one value after \<^verbatim>\<open>=\<close>), in the order in which they were typed; the value
  \<open>cur\<close> when the option does not occur. This is the claim's reading of "the list supplied
  via the option", against which the parser is compared.
\<close>

fun supplied_src_roots :: "string list \<Rightarrow> (string \<times> pat) list \<Rightarrow> string list" where
  "supplied_src_roots cur [] = cur"
| "supplied_src_roots cur ((s, PO (Some SrcRoots, os, sep, None)) # r) =
     supplied_src_roots (map fst (takeWhile (\<lambda>p. is_PA (snd p)) r)) r"
| "supplied_src_roots cur ((s, PO (Some SrcRoots, os, sep, Some e)) # r) =
     supplied_src_roots [e] r"
| "supplied_src_roots cur (x # r) = supplied_src_roots cur r"

text \<open>
  The dict returned by \<^verbatim>\<open>parse_coverage_args\<close>, one field per key.
\<close>

record arg_dict =
  coverage_xml :: "string list"
  html_report :: "string option"
  external_css_file :: "string option"
  compare_branch :: string
  fail_under :: pyfloat
  ignore_staged :: bool
  ignore_unstaged :: bool
  exclude :: "string list option"
  src_roots :: "string list"

text \<open>
  \<^verbatim>\<open>parse_coverage_args\<close>: \<^verbatim>\<open>vars(parser.parse_args(argv))\<close>. After the loop, the string
  default of an option that was not given is converted by its type (only \<^verbatim>\<open>--fail-under\<close>
  has one, \<^verbatim>\<open>'0'\<close>), a missing required argument is a usage error, and so is any string
  left in \<^verbatim>\<open>extras\<close>. \<open>fl\<close> is the builtin \<^verbatim>\<open>float\<close> on strings, \<^verbatim>\<open>None\<close> where it
  raises \<^verbatim>\<open>ValueError\<close>.
\<close>

definition parse_coverage_args :: "(string \<Rightarrow> pyfloat option) \<Rightarrow> string list \<Rightarrow> error + arg_dict" where
  "parse_coverage_args fl argv =
     (case classify argv of
        Inl e \<Rightarrow> Inl e
      | Inr rest \<Rightarrow>
          (case parse_loop fl initial_namespace rest of
             Inl e \<Rightarrow> Inl e
           | Inr st \<Rightarrow>
               (case (case ns_fail_under st of
                        Some f \<Rightarrow> Some f
                      | None \<Rightarrow> fl ''0'') of
                  None \<Rightarrow> Inl (UsageError ''invalid float value'')
                | Some f \<Rightarrow>
                    (case ns_coverage_xml st of
                       None \<Rightarrow> Inl (UsageError ''the following arguments are required: coverage_xml'')
                     | Some xml \<Rightarrow>
                         if extras st \<noteq> [] then Inl (UsageError ''unrecognized arguments'')
                         else Inr \<lparr> coverage_xml = xml,
                                    html_report = ns_html_report st,
                                    external_css_file = ns_external_css_file st,
                                    compare_branch = ns_compare_branch st,
                                    fail_under = f,
                                    ignore_staged = ns_ignore_staged st,
                                    ignore_unstaged = ns_ignore_unstaged st,
                                    exclude = ns_exclude st,
                                    src_roots = ns_src_roots st \<rparr>))))"

subsection \<open>The collaborators of \<^verbatim>\<open>generate_coverage_report\<close>\<close>

text \<open>
  The classes \<^verbatim>\<open>GitDiffReporter\<close>, \<^verbatim>\<open>XmlCoverageReporter\<close>, \<^verbatim>\<open>HtmlReportGenerator\<close> and
  \<^verbatim>\<open>StringReportGenerator\<close> are imported by the tool; their code is not in the source. An
  object of the first two is kept as the record of the arguments its constructor was
  called with.
\<close>

record diff_reporter =
  dr_compare_branch :: string
  dr_ignore_staged :: bool
  dr_ignore_unstaged :: bool
  dr_exclude :: "string list option"

record 'x coverage_reporter =
  cr_xml_roots :: "'x list"
  cr_src_roots :: "string list option"

text \<open>
  What the tool does to the world, in the order in which it happens: constructor calls,
  files parsed, files opened for writing, contents written, the report on standard output,
  the working directory handed to \<^verbatim>\<open>GitPathTool\<close> and the failure message logged by
  \<^verbatim>\<open>main\<close>.
\<close>

datatype 'x event =
    Ev_GitDiffReporter diff_reporter
  | Ev_XmlParse string
  | Ev_XmlCoverageReporter "'x list" "string list option"
  | Ev_HtmlReportGenerator "string option"
  | Ev_Open string
  | Ev_Write string string
  | Ev_StringReportGenerator
  | Ev_Stdout string
  | Ev_SetCwd "string option"
  | Ev_LogError pyfloat

text \<open>
  The environment of a run: \<^verbatim>\<open>sys.argv\<close>, the builtin \<^verbatim>\<open>float\<close>, and the functions the
  tool calls without defining them, each with the exception it may raise.
  \<^verbatim>\<open>xml_parse\<close> is \<^verbatim>\<open>cElementTree.parse\<close>; \<^verbatim>\<open>path_relpath\<close> and \<^verbatim>\<open>path_dirname\<close> are
  \<^verbatim>\<open>os.path.relpath\<close> and \<^verbatim>\<open>os.path.dirname\<close>; \<^verbatim>\<open>open_wb\<close> says whether
  \<^verbatim>\<open>open(path, "wb")\<close> raises; the last four are the methods of the two report generators,
  returning what they write (or their value).
\<close>

record 'x env =
  sys_argv :: "string list"
  py_float :: "string \<Rightarrow> pyfloat option"
  xml_parse :: "string \<Rightarrow> error + 'x"
  path_relpath :: "string \<Rightarrow> string \<Rightarrow> error + string"
  path_dirname :: "string \<Rightarrow> string"
  open_wb :: "string \<Rightarrow> error option"
  html_generate_report :: "'x coverage_reporter \<Rightarrow> diff_reporter \<Rightarrow> string option \<Rightarrow> error + string"
  html_generate_css :: "'x coverage_reporter \<Rightarrow> diff_reporter \<Rightarrow> string option \<Rightarrow> error + string"
  string_generate_report :: "'x coverage_reporter \<Rightarrow> diff_reporter \<Rightarrow> error + string"
  string_total_percent_covered :: "'x coverage_reporter \<Rightarrow> diff_reporter \<Rightarrow> error + pyfloat"

subsection \<open>\<^verbatim>\<open>generate_coverage_report\<close>\<close>

text \<open>
  The list comprehension \<^verbatim>\<open>[cElementTree.parse(xml_root) for xml_root in coverage_xml]\<close>:
  the files are parsed in order and the first exception ends the run.
\<close>

fun parse_roots :: "(string \<Rightarrow> error + 'x) \<Rightarrow> string list \<Rightarrow> 'x event list \<times> (error + 'x list)" where
  "parse_roots parse [] = ([], Inr [])"
| "parse_roots parse (p # ps) =
     (case parse p of
        Inl e \<Rightarrow> ([Ev_XmlParse p], Inl e)
      | Inr x \<Rightarrow>
          (case parse_roots parse ps of
             (tr, Inl e) \<Rightarrow> (Ev_XmlParse p # tr, Inl e)
           | (tr, Inr xs) \<Rightarrow> (Ev_XmlParse p # tr, Inr (x # xs))))"

text \<open>
  The block under \<^verbatim>\<open>if html_report is not None\<close>: the URL of the style sheet, the HTML
  generator, the report written to \<^verbatim>\<open>html_report\<close>, then the style sheet written to
  \<^verbatim>\<open>css_file\<close> if there is one. The result is the events and the exception raised, if
  any.
\<close>

definition html_block ::
  "'x env \<Rightarrow> 'x coverage_reporter \<Rightarrow> diff_reporter \<Rightarrow> string option \<Rightarrow> string option \<Rightarrow>
   'x event list \<times> error option" where
  "html_block env coverage diff html_report css_file =
     (case html_report of
        None \<Rightarrow> ([], None)
      | Some h \<Rightarrow>
          (case (case css_file of
                   None \<Rightarrow> Inr None
                 | Some c \<Rightarrow>
                     (case path_relpath env c (path_dirname env h) of
                        Inl e \<Rightarrow> Inl e
                      | Inr u \<Rightarrow> Inr (Some u))) of
             Inl e \<Rightarrow> ([], Some e)
           | Inr css_url \<Rightarrow>
               (case open_wb env h of
                  Some e \<Rightarrow> ([Ev_HtmlReportGenerator css_url], Some e)
                | None \<Rightarrow>
                    (case html_generate_report env coverage diff css_url of
                       Inl e \<Rightarrow> ([Ev_HtmlReportGenerator css_url, Ev_Open h], Some e)
                     | Inr page \<Rightarrow>
                         (case css_file of
                            None \<Rightarrow>
                              ([Ev_HtmlReportGenerator css_url, Ev_Open h, Ev_Write h page], None)
                          | Some c \<Rightarrow>
                              (case open_wb env c of
                                 Some e \<Rightarrow>
                                   ([Ev_HtmlReportGenerator css_url, Ev_Open h, Ev_Write h page],
                                    Some e)
                               | None \<Rightarrow>
                                   (case html_generate_css env coverage diff css_url of
                                      Inl e \<Rightarrow>
                                        ([Ev_HtmlReportGenerator css_url, Ev_Open h, Ev_Write h page,
                                          Ev_Open c], Some e)
                                    | Inr sheet \<Rightarrow>
                                        ([Ev_HtmlReportGenerator css_url, Ev_Open h, Ev_Write h page,
                                          Ev_Open c, Ev_Write c sheet], None))))))))"
  for html_report

text \<open>
  \<^verbatim>\<open>generate_coverage_report\<close>, with every keyword argument passed: the events of the run
  and either the exception that ended it or the value returned.
\<close>

definition generate_coverage_report ::
  "'x env \<Rightarrow> string list \<Rightarrow> string \<Rightarrow> string option \<Rightarrow> string option \<Rightarrow> bool \<Rightarrow> bool \<Rightarrow>
   string list option \<Rightarrow> string list option \<Rightarrow> 'x event list \<times> (error + pyfloat)" where
  "generate_coverage_report env coverage_xml compare_branch html_report css_file
       ignore_staged ignore_unstaged exclude src_roots =
     (let diff = \<lparr> dr_compare_branch = compare_branch, dr_ignore_staged = ignore_staged,
                   dr_ignore_unstaged = ignore_unstaged, dr_exclude = exclude \<rparr>
      in (case parse_roots (xml_parse env) coverage_xml of
            (tr1, Inl e) \<Rightarrow> (Ev_GitDiffReporter diff # tr1, Inl e)
          | (tr1, Inr xml_roots) \<Rightarrow>
              (let coverage = \<lparr> cr_xml_roots = xml_roots, cr_src_roots = src_roots \<rparr>;
                   tr2 = Ev_GitDiffReporter diff # tr1 @ [Ev_XmlCoverageReporter xml_roots src_roots]
               in (case html_block env coverage diff html_report css_file of
                     (tr3, Some e) \<Rightarrow> (tr2 @ tr3, Inl e)
                   | (tr3, None) \<Rightarrow>
                       (case string_generate_report env coverage diff of
                          Inl e \<Rightarrow> (tr2 @ tr3 @ [Ev_StringReportGenerator], Inl e)
                        | Inr report \<Rightarrow>
                            (case string_total_percent_covered env coverage diff of
                               Inl e \<Rightarrow>
                                 (tr2 @ tr3 @ [Ev_StringReportGenerator, Ev_Stdout report], Inl e)
                             | Inr percent \<Rightarrow>
                                 (tr2 @ tr3 @ [Ev_StringReportGenerator, Ev_Stdout report],
                                  Inr percent)))))))"
  for coverage_xml compare_branch html_report ignore_staged ignore_unstaged exclude src_roots

subsection \<open>\<^verbatim>\<open>main\<close>\<close>

text \<open>
  \<^verbatim>\<open>argv or sys.argv\<close>: \<^verbatim>\<open>None\<close> and the empty list are false.
\<close>

definition effective_argv :: "'x env \<Rightarrow> string list option \<Rightarrow> string list" where
  "effective_argv env argv =
     (case argv of
        None \<Rightarrow> sys_argv env
      | Some [] \<Rightarrow> sys_argv env
      | Some (a # as) \<Rightarrow> a # as)"

text \<open>
  \<^verbatim>\<open>main\<close>: the events of the run and either the exception that ended it
  (\<^verbatim>\<open>SystemExit\<close> from the parser included) or the exit code returned.
  \<^verbatim>\<open>logging.basicConfig\<close> only sets the format of the log and leaves no event.
\<close>

definition main :: "'x env \<Rightarrow> string list option \<Rightarrow> string option \<Rightarrow> 'x event list \<times> (error + int)" where
  "main env argv directory =
     (case parse_coverage_args (py_float env) (drop 1 (effective_argv env argv)) of
        Inl e \<Rightarrow> ([], Inl e)
      | Inr arg_dict \<Rightarrow>
          (case generate_coverage_report env
                  (coverage_xml arg_dict) (compare_branch arg_dict) (html_report arg_dict)
                  (external_css_file arg_dict) (ignore_staged arg_dict) (ignore_unstaged arg_dict)
                  (exclude arg_dict) (Some (src_roots arg_dict)) of
             (tr, Inl e) \<Rightarrow> (Ev_SetCwd directory # tr, Inl e)
           | (tr, Inr percent) \<Rightarrow>
               if py_ge percent (fail_under arg_dict) then (Ev_SetCwd directory # tr, Inr 0)
               else (Ev_SetCwd directory # tr @ [Ev_LogError (fail_under arg_dict)], Inr 1)))"

subsection \<open>Path reconciliation\<close>

text \<open>
  Modelled from the spec: the path reconciliation of section 4.1, which happens inside
  \<^verbatim>\<open>XmlCoverageReporter\<close> (its code is not in the source). A coverage path that is the path
  of a changed file is kept; otherwise each source root is put in front of it, in the
  declared order, and the first path so produced that is the path of a changed file is
  taken; if there is none the path is kept as it is. \<open>changed\<close> says whether a path is
  that of a changed file.
\<close>

definition join_root :: "string \<Rightarrow> string \<Rightarrow> string" where
  "join_root r p = r @ ''/'' @ p"

fun first_match :: "(string \<Rightarrow> bool) \<Rightarrow> string list \<Rightarrow> string \<Rightarrow> string option" where
  "first_match changed [] p = None"
| "first_match changed (r # rs) p =
     (if changed (join_root r p) then Some (join_root r p) else first_match changed rs p)"

definition resolve_path :: "(string \<Rightarrow> bool) \<Rightarrow> string list \<Rightarrow> string \<Rightarrow> string" where
  "resolve_path changed roots p =
     (if changed p then p
      else (case first_match changed roots p of
              Some q \<Rightarrow> q
            | None \<Rightarrow> p))"

subsection \<open>Sample inputs\<close>

text \<open>
  The first scenario of the specification: the diff adds lines 10, 11 and 12 to a file; the
  coverage record of the file has line 10 covered, line 11 uncovered and line 14 covered.
\<close>

definition scenario_changed :: changed_file where
  "scenario_changed = \<lparr> added_line_numbers = {|10, 11, 12|}, is_new_file = False, is_deleted = False \<rparr>"

definition scenario_coverage :: coverage_record where
  "scenario_coverage = [10 \<mapsto> COVERED, 11 \<mapsto> UNCOVERED, 14 \<mapsto> COVERED]"

text \<open>The third scenario: two coverage inputs that disagree on line 20.\<close>

definition shard_uncovered :: coverage_record where
  "shard_uncovered = [20 \<mapsto> UNCOVERED]"

definition shard_covered :: coverage_record where
  "shard_covered = [20 \<mapsto> COVERED]"

text \<open>
  A sample environment for concrete runs. \<^verbatim>\<open>sample_float\<close> is the builtin \<^verbatim>\<open>float\<close> on
  three strings (\<^verbatim>\<open>float('0')\<close> is 0.0, \<^verbatim>\<open>float('80')\<close> is 80.0, \<^verbatim>\<open>float('nan')\<close> is
  NaN) and rejects every other string. In \<^verbatim>\<open>sample_env\<close> every file parses (a parsed
  root is kept as the name of its file), every file can be opened, the directory of a path
  is empty and a path relative to it is the path itself, and the string report generator
  reports 100 percent.
\<close>

definition sample_float :: "string \<Rightarrow> pyfloat option" where
  "sample_float s =
     (if s = ''0'' then Some (Fin 0)
      else if s = ''80'' then Some (Fin 80)
      else if s = ''nan'' then Some NaN
      else None)"

definition sample_env :: "string env" where
  "sample_env =
     \<lparr> sys_argv = [''diff-cover'', ''coverage.xml''],
       py_float = sample_float,
       xml_parse = (\<lambda>p. Inr p),
       path_relpath = (\<lambda>p start. if p = [] then Inl (ValueError ''no path specified'') else Inr p),
       path_dirname = (\<lambda>p. []),
       open_wb = (\<lambda>p. None),
       html_generate_report = (\<lambda>coverage diff css_url. Inr ''<html>''),
       html_generate_css = (\<lambda>coverage diff css_url. Inr ''css''),
       string_generate_report = (\<lambda>coverage diff. Inr ''report''),
       string_total_percent_covered = (\<lambda>coverage diff. Inr (Fin 100)) \<rparr>"

text \<open>
  A sample diff for path reconciliation: the changed files are \<^verbatim>\<open>b/X.java\<close> and
  \<^verbatim>\<open>a/X.java\<close>.
\<close>

definition sample_changed :: "string \<Rightarrow> bool" where
  "sample_changed q = (q = ''b/X.java'' \<or> q = ''a/X.java'')"

section \<open>Properties of the correlation engine\<close>

subsection \<open>Percentages\<close>

lemma percent_of_cases:
  "percent_of c t = (if t = 0 then Inr 100 else Inr (real c / real t * 100))"
  by (simp add: percent_of_def py_truediv_def)

lemma percent_of_range:
  assumes "c \<le> t"
  shows "\<exists>p. percent_of c t = Inr p \<and> 0 \<le> p \<and> p \<le> 100"
proof (cases "t = 0")
  case True
  then show ?thesis by (simp add: percent_of_cases)
next
  case False
  with assms have "real c / real t \<le> 1" by (simp add: divide_le_eq)
  then have "real c / real t * 100 \<le> 1 * 100" by (rule mult_right_mono) simp
  moreover have "0 \<le> real c / real t * 100" by simp
  ultimately show ?thesis using False by (simp add: percent_of_cases del: times_divide_eq_left)
qed

lemma covered_le_trackable: "fcard (covered_lines cf cr) \<le> fcard (trackable_lines cf cr)"
  unfolding covered_lines_def by (rule fcard_mono) auto

lemma correlate_counts:
  "covered_changed_count (correlate cf cr) \<le> trackable_changed_count (correlate cf cr)"
  by (simp add: correlate_def covered_le_trackable)

lemma correlate_all_counts:
  "sum_list (map covered_changed_count (correlate_all changed cov))
     \<le> sum_list (map trackable_changed_count (correlate_all changed cov))"
proof (induction changed)
  case Nil
  show ?case by (simp add: correlate_all_def)
next
  case (Cons x xs)
  obtain p cf where x: "x = (p, cf)" by (cases x)
  show ?case
  proof (cases "cov p")
    case None
    with Cons x show ?thesis by (simp add: correlate_all_def)
  next
    case (Some cr)
    with Cons x correlate_counts[of cf cr] show ?thesis by (simp add: correlate_all_def)
  qed
qed

text \<open>
  Claim C2. For every per-file result and for the total over the files of a run,
  \<^verbatim>\<open>percent_covered\<close> is a number between 0 and 100, and it is exactly 100 whenever the
  corresponding count of trackable changed lines is zero.
\<close>

theorem percent_covered_range:
  "(\<exists>p. percent_covered (correlate cf cr) = Inr p \<and> 0 \<le> p \<and> p \<le> 100) \<and>
   (trackable_changed_count (correlate cf cr) = 0 \<longrightarrow> percent_covered (correlate cf cr) = Inr 100) \<and>
   (\<exists>p. total_percent_covered (aggregate (correlate_all changed cov)) = Inr p \<and> 0 \<le> p \<and> p \<le> 100) \<and>
   (total_trackable_changed (aggregate rs) = 0 \<longrightarrow> total_percent_covered (aggregate rs) = Inr 100)"
proof (intro conjI impI)
  show "\<exists>p. percent_covered (correlate cf cr) = Inr p \<and> 0 \<le> p \<and> p \<le> 100"
    using percent_of_range[OF covered_le_trackable[of cf cr]] by (simp add: correlate_def)
next
  assume "trackable_changed_count (correlate cf cr) = 0"
  then show "percent_covered (correlate cf cr) = Inr 100"
    by (simp add: correlate_def percent_of_cases)
next
  show "\<exists>p. total_percent_covered (aggregate (correlate_all changed cov)) = Inr p \<and> 0 \<le> p \<and> p \<le> 100"
    using percent_of_range[OF correlate_all_counts[of changed cov]] by (simp add: aggregate_def)
next
  assume "total_trackable_changed (aggregate rs) = 0"
  then show "total_percent_covered (aggregate rs) = Inr 100"
    by (simp add: aggregate_def percent_of_cases)
qed

text \<open>
  The changed lines of the scenario against an empty coverage record: nothing is trackable,
  and the percentage is 100; the same for the total over no files.
\<close>

theorem percent_covered_range_witness:
  "trackable_changed_count (correlate scenario_changed Map.empty) = 0 \<and>
   percent_covered (correlate scenario_changed Map.empty) = Inr 100 \<and>
   total_trackable_changed (aggregate []) = 0 \<and>
   total_percent_covered (aggregate []) = Inr 100"
proof -
  have t: "trackable_changed_count (correlate scenario_changed Map.empty) = 0"
    by (simp add: correlate_def trackable_lines_def scenario_changed_def)
  have a: "total_trackable_changed (aggregate []) = 0"
    by (simp add: aggregate_def)
  from t a percent_covered_range[of scenario_changed Map.empty "[]" Map.empty "[]"] show ?thesis
    by simp
qed

text \<open>
  Claim C6. Computing \<^verbatim>\<open>percent_covered\<close> never divides by zero: for all counts the
  result is not the division fault, a zero trackable count gives the vacuous 100 without
  the ratio being evaluated, and so for every per-file result and every total.
\<close>

theorem percent_never_divides_by_zero:
  "percent_of c t \<noteq> Inl ZeroDivisionError \<and>
   percent_of c 0 = Inr 100 \<and>
   percent_covered (correlate cf cr) \<noteq> Inl ZeroDivisionError \<and>
   total_percent_covered (aggregate rs) \<noteq> Inl ZeroDivisionError"
  by (simp add: percent_of_cases correlate_def aggregate_def)

subsection \<open>Merging\<close>

lemma status_cases: "s = None \<or> s = Some COVERED \<or> s = Some UNCOVERED"
  by (cases s) (auto intro: line_status.exhaust)

lemma merge_status_covered:
  "merge_status a b = Some COVERED \<longleftrightarrow> a = Some COVERED \<or> b = Some COVERED"
  by (cases "(a, b)" rule: merge_status.cases) simp_all

lemma merge_status_none:
  "merge_status a b = None \<longleftrightarrow> a = None \<and> b = None"
  by (cases "(a, b)" rule: merge_status.cases) simp_all

lemma status_eqI:
  assumes "x = Some COVERED \<longleftrightarrow> y = Some COVERED" and "x = None \<longleftrightarrow> y = None"
  shows "x = y"
  using assms status_cases[of x] status_cases[of y] by auto

lemma merge_status_comm: "merge_status a b = merge_status b a"
  by (rule status_eqI) (auto simp: merge_status_covered merge_status_none)

lemma merge_status_assoc: "merge_status (merge_status a b) c = merge_status a (merge_status b c)"
  by (rule status_eqI) (auto simp: merge_status_covered merge_status_none)

lemma merge_status_None_left: "merge_status None b = b"
  by (rule status_eqI) (auto simp: merge_status_covered merge_status_none)

lemma merge2_comm: "merge2 a b = merge2 b a"
  by (rule ext) (simp add: merge2_def merge_status_comm)

lemma merge2_assoc: "merge2 (merge2 a b) c = merge2 a (merge2 b c)"
  by (rule ext) (simp add: merge2_def merge_status_assoc)

lemma merge2_empty_left: "merge2 Map.empty b = b"
  by (rule ext) (simp add: merge2_def merge_status_None_left)

lemma merge2_empty_right: "merge2 a Map.empty = a"
  using merge2_comm[of a Map.empty] by (simp add: merge2_empty_left)

lemma foldl_merge2: "foldl merge2 a xs = merge2 a (foldl merge2 Map.empty xs)"
proof (induction xs arbitrary: a)
  case Nil
  show ?case by (simp add: merge2_empty_right)
next
  case (Cons x xs)
  have "foldl merge2 a (x # xs) = foldl merge2 (merge2 a x) xs" by simp
  also have "\<dots> = merge2 (merge2 a x) (foldl merge2 Map.empty xs)" by (rule Cons.IH)
  also have "\<dots> = merge2 a (merge2 x (foldl merge2 Map.empty xs))" by (rule merge2_assoc)
  also have "merge2 x (foldl merge2 Map.empty xs) = foldl merge2 x xs" by (rule Cons.IH[symmetric])
  also have "foldl merge2 x xs = foldl merge2 Map.empty (x # xs)" by (simp add: merge2_empty_left)
  finally show ?case .
qed

lemma merge_coverage_Nil: "merge_coverage [] = Map.empty"
  by (simp add: merge_coverage_def)

lemma merge_coverage_Cons: "merge_coverage (x # xs) = merge2 x (merge_coverage xs)"
  unfolding merge_coverage_def using foldl_merge2[of x xs] by (simp add: merge2_empty_left)

lemma merge_coverage_append:
  "merge_coverage (xs @ ys) = merge2 (merge_coverage xs) (merge_coverage ys)"
  by (induction xs) (simp_all add: merge_coverage_Nil merge_coverage_Cons merge2_empty_left merge2_assoc)

lemma merge_coverage_pair: "merge_coverage [a, b] = merge2 a b"
  by (simp add: merge_coverage_Cons merge_coverage_Nil merge2_empty_right)

lemma merge_coverage_covered:
  "merge_coverage xs l = Some COVERED \<longleftrightarrow> (\<exists>r \<in> set xs. r l = Some COVERED)"
  by (induction xs) (simp_all add: merge_coverage_Nil merge_coverage_Cons merge2_def merge_status_covered)

lemma merge_coverage_none:
  "merge_coverage xs l = None \<longleftrightarrow> (\<forall>r \<in> set xs. r l = None)"
  by (induction xs) (simp_all add: merge_coverage_Nil merge_coverage_Cons merge2_def merge_status_none)

lemma uncovered_iff: "s = Some UNCOVERED \<longleftrightarrow> s \<noteq> None \<and> s \<noteq> Some COVERED"
  using status_cases[of s] by auto

lemma tracked_uncovered_iff:
  "(s \<noteq> None \<longrightarrow> s = Some UNCOVERED) \<longleftrightarrow> s \<noteq> Some COVERED"
  using status_cases[of s] by auto

lemma merge_coverage_uncovered:
  "merge_coverage xs l = Some UNCOVERED \<longleftrightarrow>
     (\<exists>r \<in> set xs. r l \<noteq> None) \<and> (\<forall>r \<in> set xs. r l \<noteq> None \<longrightarrow> r l = Some UNCOVERED)"
proof -
  have "merge_coverage xs l = Some UNCOVERED \<longleftrightarrow>
        merge_coverage xs l \<noteq> None \<and> merge_coverage xs l \<noteq> Some COVERED"
    by (rule uncovered_iff)
  also have "\<dots> \<longleftrightarrow> (\<exists>r \<in> set xs. r l \<noteq> None) \<and> (\<forall>r \<in> set xs. r l \<noteq> Some COVERED)"
    by (simp add: merge_coverage_none merge_coverage_covered)
  also have "\<dots> \<longleftrightarrow> (\<exists>r \<in> set xs. r l \<noteq> None) \<and> (\<forall>r \<in> set xs. r l \<noteq> None \<longrightarrow> r l = Some UNCOVERED)"
    by (simp only: tracked_uncovered_iff)
  finally show ?thesis .
qed

lemma merge_coverage_set:
  assumes "set xs = set ys"
  shows "merge_coverage xs = merge_coverage ys"
proof (rule ext, rule status_eqI)
  fix l
  show "merge_coverage xs l = Some COVERED \<longleftrightarrow> merge_coverage ys l = Some COVERED"
    by (simp only: merge_coverage_covered assms)
  show "merge_coverage xs l = None \<longleftrightarrow> merge_coverage ys l = None"
    by (simp only: merge_coverage_none assms)
qed

text \<open>
  Claim C3. The merge of coverage inputs for one resolved path is commutative and
  associative: merging two inputs in either order gives the same record, regrouping three
  inputs gives the same record, merging the inputs of two lists at once is the same as
  merging the two merged records, and two lists with the same inputs merge to the same
  record. A line is COVERED in the result iff some input has it COVERED, UNCOVERED iff some
  input tracks it and every input that tracks it has it UNCOVERED, and not tracked iff no
  input tracks it.
\<close>

theorem merge_commutative_associative:
  "merge_coverage [a, b] = merge_coverage [b, a] \<and>
   merge_coverage [merge_coverage [a, b], c] = merge_coverage [a, merge_coverage [b, c]] \<and>
   merge_coverage (xs @ ys) = merge_coverage [merge_coverage xs, merge_coverage ys] \<and>
   (set xs = set ys \<longrightarrow> merge_coverage xs = merge_coverage ys) \<and>
   (merge_coverage xs l = Some COVERED \<longleftrightarrow> (\<exists>r \<in> set xs. r l = Some COVERED)) \<and>
   (merge_coverage xs l = Some UNCOVERED \<longleftrightarrow>
      (\<exists>r \<in> set xs. r l \<noteq> None) \<and> (\<forall>r \<in> set xs. r l \<noteq> None \<longrightarrow> r l = Some UNCOVERED)) \<and>
   (merge_coverage xs l = None \<longleftrightarrow> (\<forall>r \<in> set xs. r l = None))"
proof (intro conjI)
  show "merge_coverage [a, b] = merge_coverage [b, a]"
    by (simp only: merge_coverage_pair merge2_comm[of a b])
  show "merge_coverage [merge_coverage [a, b], c] = merge_coverage [a, merge_coverage [b, c]]"
    by (simp only: merge_coverage_pair merge2_assoc)
  show "merge_coverage (xs @ ys) = merge_coverage [merge_coverage xs, merge_coverage ys]"
    by (simp only: merge_coverage_pair merge_coverage_append)
  show "set xs = set ys \<longrightarrow> merge_coverage xs = merge_coverage ys"
    using merge_coverage_set by blast
  show "merge_coverage xs l = Some COVERED \<longleftrightarrow> (\<exists>r \<in> set xs. r l = Some COVERED)"
    by (rule merge_coverage_covered)
  show "merge_coverage xs l = Some UNCOVERED \<longleftrightarrow>
      (\<exists>r \<in> set xs. r l \<noteq> None) \<and> (\<forall>r \<in> set xs. r l \<noteq> None \<longrightarrow> r l = Some UNCOVERED)"
    by (rule merge_coverage_uncovered)
  show "merge_coverage xs l = None \<longleftrightarrow> (\<forall>r \<in> set xs. r l = None)"
    by (rule merge_coverage_none)
qed

text \<open>
  The two inputs of the third scenario, which disagree on line 20: merged in either order
  line 20 is covered; the uncovered input merged with itself leaves it uncovered; line 21,
  tracked by neither, stays untracked.
\<close>

theorem merge_commutative_associative_witness:
  "set [shard_uncovered, shard_covered] = set [shard_covered, shard_uncovered] \<and>
   merge_coverage [shard_uncovered, shard_covered] = merge_coverage [shard_covered, shard_uncovered] \<and>
   shard_covered \<in> set [shard_uncovered, shard_covered] \<and> shard_covered 20 = Some COVERED \<and>
   merge_coverage [shard_uncovered, shard_covered] 20 = Some COVERED \<and>
   shard_uncovered 20 \<noteq> None \<and>
   merge_coverage [shard_uncovered, shard_uncovered] 20 = Some UNCOVERED \<and>
   merge_coverage [shard_uncovered, shard_covered] 21 = None"
proof -
  have s: "set [shard_uncovered, shard_covered] = set [shard_covered, shard_uncovered]"
    by auto
  have c: "shard_covered 20 = Some COVERED" and u: "shard_uncovered 20 = Some UNCOVERED"
    and n: "shard_covered 21 = None" "shard_uncovered 21 = None"
    by (simp_all add: shard_covered_def shard_uncovered_def)
  note t1 = merge_commutative_associative[of shard_uncovered shard_covered shard_covered
      "[shard_uncovered, shard_covered]" "[shard_covered, shard_uncovered]" 20]
  note t2 = merge_commutative_associative[of shard_uncovered shard_covered shard_covered
      "[shard_uncovered, shard_uncovered]" "[]" 20]
  note t3 = merge_commutative_associative[of shard_uncovered shard_covered shard_covered
      "[shard_uncovered, shard_covered]" "[]" 21]
  have "merge_coverage [shard_uncovered, shard_covered] = merge_coverage [shard_covered, shard_uncovered]"
    using t1[THEN conjunct2, THEN conjunct2, THEN conjunct2, THEN conjunct1] s by (rule mp)
  moreover have "merge_coverage [shard_uncovered, shard_covered] 20 = Some COVERED"
    using t1[THEN conjunct2, THEN conjunct2, THEN conjunct2, THEN conjunct2, THEN conjunct1] c
    by simp
  moreover have "merge_coverage [shard_uncovered, shard_uncovered] 20 = Some UNCOVERED"
    using t2[THEN conjunct2, THEN conjunct2, THEN conjunct2, THEN conjunct2, THEN conjunct2,
        THEN conjunct1] u
    by simp
  moreover have "merge_coverage [shard_uncovered, shard_covered] 21 = None"
    using t3[THEN conjunct2, THEN conjunct2, THEN conjunct2, THEN conjunct2, THEN conjunct2,
        THEN conjunct2] n
    by simp
  ultimately show ?thesis using s c u by simp
qed

section \<open>Properties of the command-line tool\<close>

subsection \<open>Events of \<^verbatim>\<open>generate_coverage_report\<close>\<close>

lemma parse_roots_events:
  "e \<in> set (fst (parse_roots parse ps)) \<Longrightarrow> \<exists>p. e = Ev_XmlParse p"
  by (induction ps arbitrary: e) (auto split: sum.splits prod.splits)

lemma parse_roots_ok:
  assumes "\<forall>p \<in> set ps. parse p = Inr (f p)"
  shows "parse_roots parse ps = (map Ev_XmlParse ps, Inr (map f ps))"
  using assms by (induction ps) auto

lemma parse_roots_Inr:
  assumes "parse_roots parse ps = (tr, Inr xs)"
  shows "tr = map Ev_XmlParse ps \<and> map parse ps = map Inr xs"
  using assms by (induction ps arbitrary: tr xs) (auto split: sum.splits prod.splits)

lemma html_block_None: "html_block env coverage diff None css = ([], None)"
  by (simp add: html_block_def)

lemma html_block_ok:
  assumes "html_block env coverage diff (Some h) css = (tr, None)"
  shows "\<exists>css_url page.
           html_generate_report env coverage diff css_url = Inr page \<and>
           (case css of
              None \<Rightarrow> css_url = None \<and>
                tr = [Ev_HtmlReportGenerator css_url, Ev_Open h, Ev_Write h page]
            | Some c \<Rightarrow>
                (\<exists>u sheet. path_relpath env c (path_dirname env h) = Inr u \<and> css_url = Some u \<and>
                   html_generate_css env coverage diff css_url = Inr sheet \<and>
                   tr = [Ev_HtmlReportGenerator css_url, Ev_Open h, Ev_Write h page,
                         Ev_Open c, Ev_Write c sheet]))"
  using assms unfolding html_block_def
  by (auto split: option.splits sum.splits)

lemma generate_coverage_report_Inr:
  assumes "generate_coverage_report env xml cb html css st ust ex sr = (tr, Inr p)"
  shows "\<exists>xml_roots tr3 report.
           parse_roots (xml_parse env) xml = (map Ev_XmlParse xml, Inr xml_roots) \<and>
           html_block env \<lparr>cr_xml_roots = xml_roots, cr_src_roots = sr\<rparr>
             \<lparr>dr_compare_branch = cb, dr_ignore_staged = st, dr_ignore_unstaged = ust, dr_exclude = ex\<rparr>
             html css = (tr3, None) \<and>
           string_generate_report env \<lparr>cr_xml_roots = xml_roots, cr_src_roots = sr\<rparr>
             \<lparr>dr_compare_branch = cb, dr_ignore_staged = st, dr_ignore_unstaged = ust, dr_exclude = ex\<rparr>
             = Inr report \<and>
           string_total_percent_covered env \<lparr>cr_xml_roots = xml_roots, cr_src_roots = sr\<rparr>
             \<lparr>dr_compare_branch = cb, dr_ignore_staged = st, dr_ignore_unstaged = ust, dr_exclude = ex\<rparr>
             = Inr p \<and>
           tr = Ev_GitDiffReporter
                  \<lparr>dr_compare_branch = cb, dr_ignore_staged = st, dr_ignore_unstaged = ust, dr_exclude = ex\<rparr>
                # map Ev_XmlParse xml @ [Ev_XmlCoverageReporter xml_roots sr] @ tr3
                @ [Ev_StringReportGenerator, Ev_Stdout report]"
proof -
  obtain tr1 r1 where p: "parse_roots (xml_parse env) xml = (tr1, r1)"
    by (cases "parse_roots (xml_parse env) xml")
  from assms p obtain xml_roots where r1: "r1 = Inr xml_roots"
    by (cases r1) (auto simp: generate_coverage_report_def)
  from p r1 have tr1: "tr1 = map Ev_XmlParse xml"
    using parse_roots_Inr by blast
  from assms p r1 tr1 show ?thesis
    unfolding generate_coverage_report_def
    by (auto simp: Let_def split: prod.splits option.splits sum.splits)
qed


lemma generate_coverage_report_no_html:
  assumes "generate_coverage_report env xml cb None css st ust ex sr = (tr, r)"
  shows "Ev_Open q \<notin> set tr \<and> Ev_Write q s \<notin> set tr \<and> Ev_HtmlReportGenerator u \<notin> set tr"
proof -
  obtain tr1 r1 where p: "parse_roots (xml_parse env) xml = (tr1, r1)"
    by (cases "parse_roots (xml_parse env) xml")
  have e: "Ev_Open q \<notin> set tr1 \<and> Ev_Write q s \<notin> set tr1 \<and> Ev_HtmlReportGenerator u \<notin> set tr1"
    using parse_roots_events[of _ "xml_parse env" xml] p by fastforce
  from assms p e show ?thesis
    unfolding generate_coverage_report_def
    by (auto simp: Let_def html_block_None split: sum.splits)
qed

lemma generate_coverage_report_no_log:
  assumes "generate_coverage_report env xml cb html css st ust ex sr = (tr, Inr p)"
  shows "Ev_LogError f \<notin> set tr"
proof -
  from generate_coverage_report_Inr[OF assms] obtain xml_roots tr3 report where
    h: "html_block env \<lparr>cr_xml_roots = xml_roots, cr_src_roots = sr\<rparr>
             \<lparr>dr_compare_branch = cb, dr_ignore_staged = st, dr_ignore_unstaged = ust, dr_exclude = ex\<rparr>
             html css = (tr3, None)"
    and tr: "tr = Ev_GitDiffReporter
                  \<lparr>dr_compare_branch = cb, dr_ignore_staged = st, dr_ignore_unstaged = ust, dr_exclude = ex\<rparr>
                # map Ev_XmlParse xml @ [Ev_XmlCoverageReporter xml_roots sr] @ tr3
                @ [Ev_StringReportGenerator, Ev_Stdout report]"
    by blast
  have "Ev_LogError f \<notin> set tr3"
  proof (cases html)
    case None
    with h show ?thesis by (simp add: html_block_None)
  next
    case (Some hp)
    with h have "html_block env \<lparr>cr_xml_roots = xml_roots, cr_src_roots = sr\<rparr>
             \<lparr>dr_compare_branch = cb, dr_ignore_staged = st, dr_ignore_unstaged = ust, dr_exclude = ex\<rparr>
             (Some hp) css = (tr3, None)"
      by simp
    from html_block_ok[OF this] show ?thesis
      by (cases css) auto
  qed
  with tr show ?thesis by auto
qed

lemma py_ge_lt: "p \<noteq> NaN \<Longrightarrow> f \<noteq> NaN \<Longrightarrow> (\<not> py_ge p f) = py_lt p f"
  by (cases p; cases f) auto

text \<open>
  Claim C1, as amended. \<^verbatim>\<open>main\<close> returns no value other than 0 and 1. In a run in which
  the arguments parse to \<open>d\<close> and \<^verbatim>\<open>generate_coverage_report\<close> returns the percentage
  \<open>p\<close>, \<^verbatim>\<open>main\<close> returns 0 exactly when \<^verbatim>\<open>p >= fail_under\<close> holds and 1 exactly when it
  does not, and the failure message is logged exactly in the second case. When neither
  number is NaN, "does not hold" is the same as "\<open>p\<close> is strictly below the threshold". The
  comparison is made in \<^verbatim>\<open>main\<close>: \<^verbatim>\<open>generate_coverage_report\<close> is not given the
  threshold.
\<close>

theorem main_exit_code:
  "(\<forall>r. snd (main env argv directory) = Inr r \<longrightarrow> r = 0 \<or> r = 1) \<and>
   (parse_coverage_args (py_float env) (drop 1 (effective_argv env argv)) = Inr d \<and>
    generate_coverage_report env (coverage_xml d) (compare_branch d) (html_report d)
      (external_css_file d) (ignore_staged d) (ignore_unstaged d) (exclude d) (Some (src_roots d))
      = (tr, Inr p) \<longrightarrow>
      (snd (main env argv directory) = Inr 0 \<longleftrightarrow> py_ge p (fail_under d)) \<and>
      (snd (main env argv directory) = Inr 1 \<longleftrightarrow> \<not> py_ge p (fail_under d)) \<and>
      (Ev_LogError f \<in> set (fst (main env argv directory)) \<longleftrightarrow>
         \<not> py_ge p (fail_under d) \<and> f = fail_under d) \<and>
      (p \<noteq> NaN \<and> fail_under d \<noteq> NaN \<longrightarrow> (\<not> py_ge p (fail_under d) \<longleftrightarrow> py_lt p (fail_under d))))"
proof (intro conjI allI impI)
  fix r
  assume "snd (main env argv directory) = Inr r"
  then show "r = 0 \<or> r = 1"
    unfolding main_def by (auto split: sum.splits prod.splits if_splits)
next
  assume a: "parse_coverage_args (py_float env) (drop 1 (effective_argv env argv)) = Inr d \<and>
    generate_coverage_report env (coverage_xml d) (compare_branch d) (html_report d)
      (external_css_file d) (ignore_staged d) (ignore_unstaged d) (exclude d) (Some (src_roots d))
      = (tr, Inr p)"
  then have m: "main env argv directory =
      (if py_ge p (fail_under d) then (Ev_SetCwd directory # tr, Inr 0)
       else (Ev_SetCwd directory # tr @ [Ev_LogError (fail_under d)], Inr 1))"
    unfolding main_def by simp
  from a have nl: "Ev_LogError f \<notin> set tr"
    using generate_coverage_report_no_log by blast
  show "snd (main env argv directory) = Inr 0 \<longleftrightarrow> py_ge p (fail_under d)"
    by (simp add: m)
  show "snd (main env argv directory) = Inr 1 \<longleftrightarrow> \<not> py_ge p (fail_under d)"
    by (simp add: m)
  show "Ev_LogError f \<in> set (fst (main env argv directory)) \<longleftrightarrow>
         \<not> py_ge p (fail_under d) \<and> f = fail_under d"
    using nl by (auto simp: m)
next
  assume "p \<noteq> NaN \<and> fail_under d \<noteq> NaN"
  then show "(\<not> py_ge p (fail_under d)) \<longleftrightarrow> py_lt p (fail_under d)"
    by (simp add: py_ge_lt)
qed


text \<open>
  The claim as first stated says that 1 is returned exactly when the percentage is strictly
  below the threshold. With \<^verbatim>\<open>--fail-under nan\<close> the threshold is NaN: the percentage 100
  is not strictly below it, and \<^verbatim>\<open>main\<close> returns 1.
\<close>

theorem main_exit_code_counterexample:
  "parse_coverage_args (py_float sample_env)
     (drop 1 (effective_argv sample_env (Some [''diff-cover'', ''coverage.xml'', ''--fail-under'', ''nan''])))
     = Inr \<lparr> coverage_xml = [''coverage.xml''], html_report = None, external_css_file = None,
             compare_branch = ''origin/master'', fail_under = NaN, ignore_staged = False,
             ignore_unstaged = False, exclude = None,
             src_roots = [''src/main/java'', ''src/test/java''] \<rparr> \<and>
   snd (generate_coverage_report sample_env [''coverage.xml''] ''origin/master'' None None False False
          None (Some [''src/main/java'', ''src/test/java''])) = Inr (Fin 100) \<and>
   snd (main sample_env (Some [''diff-cover'', ''coverage.xml'', ''--fail-under'', ''nan'']) None) = Inr 1 \<and>
   \<not> py_lt (Fin 100) NaN"
  by code_simp

text \<open>
  A run with \<^verbatim>\<open>--fail-under 80\<close> and a report of 100 percent: the exit code is 0 and nothing
  is logged.
\<close>

theorem main_exit_code_witness:
  "parse_coverage_args (py_float sample_env)
     (drop 1 (effective_argv sample_env (Some [''diff-cover'', ''coverage.xml'', ''--fail-under'', ''80''])))
     = Inr \<lparr> coverage_xml = [''coverage.xml''], html_report = None, external_css_file = None,
             compare_branch = ''origin/master'', fail_under = Fin 80, ignore_staged = False,
             ignore_unstaged = False, exclude = None,
             src_roots = [''src/main/java'', ''src/test/java''] \<rparr> \<and>
   snd (generate_coverage_report sample_env [''coverage.xml''] ''origin/master'' None None False False
          None (Some [''src/main/java'', ''src/test/java''])) = Inr (Fin 100) \<and>
   py_ge (Fin 100) (Fin 80) \<and> Fin 100 \<noteq> NaN \<and> Fin 80 \<noteq> NaN \<and> \<not> py_lt (Fin 100) (Fin 80) \<and>
   snd (main sample_env (Some [''diff-cover'', ''coverage.xml'', ''--fail-under'', ''80'']) None) = Inr 0 \<and>
   Ev_LogError (Fin 80) \<notin> set (fst (main sample_env (Some [''diff-cover'', ''coverage.xml'', ''--fail-under'', ''80'']) None))"
proof -
  let ?d = "\<lparr> coverage_xml = [''coverage.xml''], html_report = None, external_css_file = None,
             compare_branch = ''origin/master'', fail_under = Fin 80, ignore_staged = False,
             ignore_unstaged = False, exclude = None,
             src_roots = [''src/main/java'', ''src/test/java''] \<rparr>"
  let ?tr = "[Ev_GitDiffReporter \<lparr>dr_compare_branch = ''origin/master'', dr_ignore_staged = False,
                 dr_ignore_unstaged = False, dr_exclude = None\<rparr>,
              Ev_XmlParse ''coverage.xml'',
              Ev_XmlCoverageReporter [''coverage.xml''] (Some [''src/main/java'', ''src/test/java'']),
              Ev_StringReportGenerator, Ev_Stdout ''report'']"
  have a: "parse_coverage_args (py_float sample_env)
     (drop 1 (effective_argv sample_env (Some [''diff-cover'', ''coverage.xml'', ''--fail-under'', ''80'']))) = Inr ?d"
    by code_simp
  have b: "generate_coverage_report sample_env (coverage_xml ?d) (compare_branch ?d) (html_report ?d)
      (external_css_file ?d) (ignore_staged ?d) (ignore_unstaged ?d) (exclude ?d) (Some (src_roots ?d))
      = (?tr, Inr (Fin 100))"
    by code_simp
  have g: "py_ge (Fin 100) (Fin 80)"
    by simp
  note t = main_exit_code[of sample_env "Some [''diff-cover'', ''coverage.xml'', ''--fail-under'', ''80'']"
      None ?d ?tr "Fin 100" "Fin 80", THEN conjunct2, rule_format, OF conjI[OF a b]]
  from t g have "snd (main sample_env (Some [''diff-cover'', ''coverage.xml'', ''--fail-under'', ''80'']) None) = Inr 0"
    by simp
  moreover from t g have "Ev_LogError (Fin 80) \<notin> set (fst (main sample_env (Some [''diff-cover'', ''coverage.xml'', ''--fail-under'', ''80'']) None))"
    by simp
  moreover from b have "snd (generate_coverage_report sample_env [''coverage.xml''] ''origin/master'' None None False False
          None (Some [''src/main/java'', ''src/test/java''])) = Inr (Fin 100)"
    by simp
  moreover from t g have "\<not> py_lt (Fin 100) (Fin 80)"
    by simp
  ultimately show ?thesis using a g by simp
qed


text \<open>
  Claim C7. In every run of \<^verbatim>\<open>generate_coverage_report\<close> that returns, the plain-text
  report of the string report generator has been written to standard output, whatever
  \<^verbatim>\<open>html_report\<close> is; the value returned is the total percentage of that generator; no file
  is opened or written when \<^verbatim>\<open>html_report\<close> is \<^verbatim>\<open>None\<close>, and when it is a path that file
  is opened and the HTML report written into it.
\<close>

theorem report_outputs:
  assumes "generate_coverage_report env xml cb html css st ust ex sr = (tr, Inr p)"
  shows "\<exists>xml_roots report.
           string_generate_report env \<lparr>cr_xml_roots = xml_roots, cr_src_roots = sr\<rparr>
             \<lparr>dr_compare_branch = cb, dr_ignore_staged = st, dr_ignore_unstaged = ust, dr_exclude = ex\<rparr>
             = Inr report \<and>
           Ev_Stdout report \<in> set tr \<and>
           string_total_percent_covered env \<lparr>cr_xml_roots = xml_roots, cr_src_roots = sr\<rparr>
             \<lparr>dr_compare_branch = cb, dr_ignore_staged = st, dr_ignore_unstaged = ust, dr_exclude = ex\<rparr>
             = Inr p \<and>
           (html = None \<longrightarrow> (\<forall>q s. Ev_Open q \<notin> set tr \<and> Ev_Write q s \<notin> set tr)) \<and>
           (\<forall>h. html = Some h \<longrightarrow>
              Ev_Open h \<in> set tr \<and>
              (\<exists>css_url page.
                 html_generate_report env \<lparr>cr_xml_roots = xml_roots, cr_src_roots = sr\<rparr>
                   \<lparr>dr_compare_branch = cb, dr_ignore_staged = st, dr_ignore_unstaged = ust, dr_exclude = ex\<rparr>
                   css_url = Inr page \<and>
                 Ev_Write h page \<in> set tr))"
proof -
  from generate_coverage_report_Inr[OF assms] obtain xml_roots tr3 report where
    h: "html_block env \<lparr>cr_xml_roots = xml_roots, cr_src_roots = sr\<rparr>
             \<lparr>dr_compare_branch = cb, dr_ignore_staged = st, dr_ignore_unstaged = ust, dr_exclude = ex\<rparr>
             html css = (tr3, None)"
    and g: "string_generate_report env \<lparr>cr_xml_roots = xml_roots, cr_src_roots = sr\<rparr>
             \<lparr>dr_compare_branch = cb, dr_ignore_staged = st, dr_ignore_unstaged = ust, dr_exclude = ex\<rparr>
             = Inr report"
    and t: "string_total_percent_covered env \<lparr>cr_xml_roots = xml_roots, cr_src_roots = sr\<rparr>
             \<lparr>dr_compare_branch = cb, dr_ignore_staged = st, dr_ignore_unstaged = ust, dr_exclude = ex\<rparr>
             = Inr p"
    and tr: "tr = Ev_GitDiffReporter
                  \<lparr>dr_compare_branch = cb, dr_ignore_staged = st, dr_ignore_unstaged = ust, dr_exclude = ex\<rparr>
                # map Ev_XmlParse xml @ [Ev_XmlCoverageReporter xml_roots sr] @ tr3
                @ [Ev_StringReportGenerator, Ev_Stdout report]"
    by blast
  have out: "Ev_Stdout report \<in> set tr"
    by (simp add: tr)
  have none: "html = None \<longrightarrow> (\<forall>q s. Ev_Open q \<notin> set tr \<and> Ev_Write q s \<notin> set tr)"
    using generate_coverage_report_no_html assms by blast
  have some: "\<forall>hp. html = Some hp \<longrightarrow>
              Ev_Open hp \<in> set tr \<and>
              (\<exists>css_url page.
                 html_generate_report env \<lparr>cr_xml_roots = xml_roots, cr_src_roots = sr\<rparr>
                   \<lparr>dr_compare_branch = cb, dr_ignore_staged = st, dr_ignore_unstaged = ust, dr_exclude = ex\<rparr>
                   css_url = Inr page \<and>
                 Ev_Write hp page \<in> set tr)"
  proof (intro allI impI)
    fix hp
    assume "html = Some hp"
    with h have "html_block env \<lparr>cr_xml_roots = xml_roots, cr_src_roots = sr\<rparr>
             \<lparr>dr_compare_branch = cb, dr_ignore_staged = st, dr_ignore_unstaged = ust, dr_exclude = ex\<rparr>
             (Some hp) css = (tr3, None)"
      by simp
    from html_block_ok[OF this] obtain css_url page where
      "html_generate_report env \<lparr>cr_xml_roots = xml_roots, cr_src_roots = sr\<rparr>
             \<lparr>dr_compare_branch = cb, dr_ignore_staged = st, dr_ignore_unstaged = ust, dr_exclude = ex\<rparr>
             css_url = Inr page"
      and "Ev_Open hp \<in> set tr3" and "Ev_Write hp page \<in> set tr3"
      by (cases css) auto
    then show "Ev_Open hp \<in> set tr \<and>
              (\<exists>css_url page.
                 html_generate_report env \<lparr>cr_xml_roots = xml_roots, cr_src_roots = sr\<rparr>
                   \<lparr>dr_compare_branch = cb, dr_ignore_staged = st, dr_ignore_unstaged = ust, dr_exclude = ex\<rparr>
                   css_url = Inr page \<and>
                 Ev_Write hp page \<in> set tr)"
      unfolding tr by auto
  qed
  from g out t none some show ?thesis
    by blast
qed

text \<open>
  Claim C8. With \<^verbatim>\<open>css_file\<close> given and \<^verbatim>\<open>html_report\<close> \<^verbatim>\<open>None\<close>, no file at all is opened
  or written, in particular not the CSS file, whether the run returns or not. With both
  given, in a run that returns, the CSS file has been opened and written, and the URL handed
  to the HTML report generator is \<^verbatim>\<open>os.path.relpath(css_file, os.path.dirname(html_report))\<close>.
\<close>

theorem css_file_effects:
  "Ev_Open q \<notin> set (fst (generate_coverage_report env xml cb None (Some c) st ust ex sr)) \<and>
   Ev_Write q s \<notin> set (fst (generate_coverage_report env xml cb None (Some c) st ust ex sr)) \<and>
   (generate_coverage_report env xml cb (Some h) (Some c) st ust ex sr = (tr, Inr p) \<longrightarrow>
      (\<exists>u sheet. path_relpath env c (path_dirname env h) = Inr u \<and>
         Ev_HtmlReportGenerator (Some u) \<in> set tr \<and>
         Ev_Open c \<in> set tr \<and> Ev_Write c sheet \<in> set tr))"
proof (intro conjI impI)
  obtain tr0 r0 where g: "generate_coverage_report env xml cb None (Some c) st ust ex sr = (tr0, r0)"
    by (cases "generate_coverage_report env xml cb None (Some c) st ust ex sr")
  from generate_coverage_report_no_html[OF g]
  show "Ev_Open q \<notin> set (fst (generate_coverage_report env xml cb None (Some c) st ust ex sr))"
    and "Ev_Write q s \<notin> set (fst (generate_coverage_report env xml cb None (Some c) st ust ex sr))"
    by (simp_all add: g)
next
  assume a: "generate_coverage_report env xml cb (Some h) (Some c) st ust ex sr = (tr, Inr p)"
  from generate_coverage_report_Inr[OF a] obtain xml_roots tr3 report where
    hb: "html_block env \<lparr>cr_xml_roots = xml_roots, cr_src_roots = sr\<rparr>
             \<lparr>dr_compare_branch = cb, dr_ignore_staged = st, dr_ignore_unstaged = ust, dr_exclude = ex\<rparr>
             (Some h) (Some c) = (tr3, None)"
    and tr: "tr = Ev_GitDiffReporter
                  \<lparr>dr_compare_branch = cb, dr_ignore_staged = st, dr_ignore_unstaged = ust, dr_exclude = ex\<rparr>
                # map Ev_XmlParse xml @ [Ev_XmlCoverageReporter xml_roots sr] @ tr3
                @ [Ev_StringReportGenerator, Ev_Stdout report]"
    by blast
  from html_block_ok[OF hb] obtain page u sheet where
    rp: "path_relpath env c (path_dirname env h) = Inr u"
    and t3: "tr3 = [Ev_HtmlReportGenerator (Some u), Ev_Open h, Ev_Write h page,
                   Ev_Open c, Ev_Write c sheet]"
    by auto
  have "Ev_HtmlReportGenerator (Some u) \<in> set tr" "Ev_Open c \<in> set tr" "Ev_Write c sheet \<in> set tr"
    by (simp_all add: tr t3)
  with rp show "\<exists>u sheet. path_relpath env c (path_dirname env h) = Inr u \<and>
         Ev_HtmlReportGenerator (Some u) \<in> set tr \<and>
         Ev_Open c \<in> set tr \<and> Ev_Write c sheet \<in> set tr"
    by blast
qed

lemma html_block_sys_argv:
  "html_block (env\<lparr>sys_argv := a\<rparr>) coverage diff html css = html_block env coverage diff html css"
  by (simp add: html_block_def cong: option.case_cong sum.case_cong)

lemma generate_coverage_report_sys_argv:
  "generate_coverage_report (env\<lparr>sys_argv := a\<rparr>) xml cb html css st ust ex sr =
   generate_coverage_report env xml cb html css st ust ex sr"
  by (simp add: generate_coverage_report_def html_block_sys_argv Let_def
      cong: option.case_cong sum.case_cong prod.case_cong)

text \<open>
  Claim C10. \<^verbatim>\<open>argv or sys.argv\<close>: called with \<^verbatim>\<open>None\<close> or with the empty list, \<^verbatim>\<open>main\<close>
  works on \<^verbatim>\<open>sys.argv\<close>, otherwise on \<^verbatim>\<open>argv\<close> itself. What it does is decided by
  \<^verbatim>\<open>parse_coverage_args\<close> on that vector without its first element: if these strings do not
  parse, \<^verbatim>\<open>main\<close> ends with the parser's exit and nothing else has happened; if they parse
  to \<open>d\<close>, \<^verbatim>\<open>main\<close> is the run of \<^verbatim>\<open>generate_coverage_report\<close> on \<open>d\<close> followed by the
  threshold test. So the first element never matters, and a call with \<^verbatim>\<open>a # args\<close> is the
  run of a program whose \<^verbatim>\<open>sys.argv\<close> is \<^verbatim>\<open>b # args\<close>. In the sample environment
  \<^verbatim>\<open>main(['prog', 'cov.xml'])\<close> parses \<^verbatim>\<open>['cov.xml']\<close>, one coverage report, and
  \<^verbatim>\<open>main(['cov.xml'])\<close> parses the empty list, which is rejected.
\<close>

theorem main_argv:
  "effective_argv env None = sys_argv env \<and>
   effective_argv env (Some []) = sys_argv env \<and>
   effective_argv env (Some (a # args)) = a # args \<and>
   (parse_coverage_args (py_float env) (drop 1 (effective_argv env argv)) = Inl e \<longrightarrow>
      main env argv directory = ([], Inl e)) \<and>
   (parse_coverage_args (py_float env) (drop 1 (effective_argv env argv)) = Inr d \<longrightarrow>
      main env argv directory =
        (case generate_coverage_report env (coverage_xml d) (compare_branch d) (html_report d)
                (external_css_file d) (ignore_staged d) (ignore_unstaged d) (exclude d)
                (Some (src_roots d)) of
           (tr, Inl e') \<Rightarrow> (Ev_SetCwd directory # tr, Inl e')
         | (tr, Inr percent) \<Rightarrow>
             if py_ge percent (fail_under d) then (Ev_SetCwd directory # tr, Inr 0)
             else (Ev_SetCwd directory # tr @ [Ev_LogError (fail_under d)], Inr 1))) \<and>
   main env None directory = main env (Some (sys_argv env)) directory \<and>
   main env (Some []) directory = main env None directory \<and>
   main env (Some (a # args)) directory = main env (Some (b # args)) directory \<and>
   main env (Some (a # args)) directory = main (env\<lparr>sys_argv := b # args\<rparr>) None directory \<and>
   main sample_env (Some [''prog'', ''cov.xml'']) None
     = ([Ev_SetCwd None,
         Ev_GitDiffReporter \<lparr>dr_compare_branch = ''origin/master'', dr_ignore_staged = False,
           dr_ignore_unstaged = False, dr_exclude = None\<rparr>,
         Ev_XmlParse ''cov.xml'',
         Ev_XmlCoverageReporter [''cov.xml''] (Some [''src/main/java'', ''src/test/java'']),
         Ev_StringReportGenerator, Ev_Stdout ''report''], Inr 0) \<and>
   main sample_env (Some [''cov.xml'']) None
     = ([], Inl (UsageError ''the following arguments are required: coverage_xml''))"
proof (intro conjI impI)
  show "effective_argv env None = sys_argv env"
    and "effective_argv env (Some []) = sys_argv env"
    and "effective_argv env (Some (a # args)) = a # args"
    by (simp_all add: effective_argv_def)
  show "main env None directory = main env (Some (sys_argv env)) directory"
    by (cases "sys_argv env") (simp_all add: main_def effective_argv_def)
  show "main env (Some []) directory = main env None directory"
    by (simp add: main_def effective_argv_def)
  show "main env (Some (a # args)) directory = main env (Some (b # args)) directory"
    by (simp add: main_def effective_argv_def)
  show "main env (Some (a # args)) directory = main (env\<lparr>sys_argv := b # args\<rparr>) None directory"
    by (simp add: main_def effective_argv_def generate_coverage_report_sys_argv cong: sum.case_cong)
  show "main sample_env (Some [''prog'', ''cov.xml'']) None
     = ([Ev_SetCwd None,
         Ev_GitDiffReporter \<lparr>dr_compare_branch = ''origin/master'', dr_ignore_staged = False,
           dr_ignore_unstaged = False, dr_exclude = None\<rparr>,
         Ev_XmlParse ''cov.xml'',
         Ev_XmlCoverageReporter [''cov.xml''] (Some [''src/main/java'', ''src/test/java'']),
         Ev_StringReportGenerator, Ev_Stdout ''report''], Inr 0)"
    by code_simp
  show "main sample_env (Some [''cov.xml'']) None
     = ([], Inl (UsageError ''the following arguments are required: coverage_xml''))"
    by code_simp
next
  assume "parse_coverage_args (py_float env) (drop 1 (effective_argv env argv)) = Inl e"
  then show "main env argv directory = ([], Inl e)"
    by (simp add: main_def)
next
  assume "parse_coverage_args (py_float env) (drop 1 (effective_argv env argv)) = Inr d"
  then show "main env argv directory =
        (case generate_coverage_report env (coverage_xml d) (compare_branch d) (html_report d)
                (external_css_file d) (ignore_staged d) (ignore_unstaged d) (exclude d)
                (Some (src_roots d)) of
           (tr, Inl e') \<Rightarrow> (Ev_SetCwd directory # tr, Inl e')
         | (tr, Inr percent) \<Rightarrow>
             if py_ge percent (fail_under d) then (Ev_SetCwd directory # tr, Inr 0)
             else (Ev_SetCwd directory # tr @ [Ev_LogError (fail_under d)], Inr 1))"
    by (simp add: main_def)
qed

text \<open>
  Two runs in the sample environment, with and without \<^verbatim>\<open>html_report\<close>.
\<close>

theorem report_outputs_witness:
  "generate_coverage_report sample_env [''coverage.xml''] ''origin/master'' (Some ''report.html'') None
     False False None None
     = ([Ev_GitDiffReporter \<lparr>dr_compare_branch = ''origin/master'', dr_ignore_staged = False,
           dr_ignore_unstaged = False, dr_exclude = None\<rparr>,
         Ev_XmlParse ''coverage.xml'', Ev_XmlCoverageReporter [''coverage.xml''] None,
         Ev_HtmlReportGenerator None, Ev_Open ''report.html'', Ev_Write ''report.html'' ''<html>'',
         Ev_StringReportGenerator, Ev_Stdout ''report''], Inr (Fin 100)) \<and>
   generate_coverage_report sample_env [''coverage.xml''] ''origin/master'' None None
     False False None None
     = ([Ev_GitDiffReporter \<lparr>dr_compare_branch = ''origin/master'', dr_ignore_staged = False,
           dr_ignore_unstaged = False, dr_exclude = None\<rparr>,
         Ev_XmlParse ''coverage.xml'', Ev_XmlCoverageReporter [''coverage.xml''] None,
         Ev_StringReportGenerator, Ev_Stdout ''report''], Inr (Fin 100)) \<and>
   (\<exists>xml_roots.
      string_total_percent_covered sample_env \<lparr>cr_xml_roots = xml_roots, cr_src_roots = None\<rparr>
        \<lparr>dr_compare_branch = ''origin/master'', dr_ignore_staged = False,
           dr_ignore_unstaged = False, dr_exclude = None\<rparr> = Inr (Fin 100))"
proof -
  let ?diff = "\<lparr>dr_compare_branch = ''origin/master'', dr_ignore_staged = False,
           dr_ignore_unstaged = False, dr_exclude = None\<rparr>"
  let ?tr1 = "[Ev_GitDiffReporter ?diff,
         Ev_XmlParse ''coverage.xml'', Ev_XmlCoverageReporter [''coverage.xml''] None,
         Ev_HtmlReportGenerator None, Ev_Open ''report.html'', Ev_Write ''report.html'' ''<html>'',
         Ev_StringReportGenerator, Ev_Stdout ''report'']"
  let ?tr2 = "[Ev_GitDiffReporter ?diff,
         Ev_XmlParse ''coverage.xml'', Ev_XmlCoverageReporter [''coverage.xml''] None,
         Ev_StringReportGenerator, Ev_Stdout ''report'']"
  have h1: "generate_coverage_report sample_env [''coverage.xml''] ''origin/master'' (Some ''report.html'') None
     False False None None = (?tr1, Inr (Fin 100))"
    by code_simp
  have h2: "generate_coverage_report sample_env [''coverage.xml''] ''origin/master'' None None
     False False None None = (?tr2, Inr (Fin 100))"
    by code_simp
  from report_outputs[OF h1] have
    "\<exists>xml_roots. string_total_percent_covered sample_env \<lparr>cr_xml_roots = xml_roots, cr_src_roots = None\<rparr>
        ?diff = Inr (Fin 100)"
    by blast
  with h1 h2 show ?thesis
    by simp
qed

text \<open>
  A run in the sample environment with both files given, and the same without
  \<^verbatim>\<open>html_report\<close>.
\<close>

theorem css_file_effects_witness:
  "generate_coverage_report sample_env [''coverage.xml''] ''origin/master'' (Some ''report.html'')
     (Some ''style.css'') False False None None
     = ([Ev_GitDiffReporter \<lparr>dr_compare_branch = ''origin/master'', dr_ignore_staged = False,
           dr_ignore_unstaged = False, dr_exclude = None\<rparr>,
         Ev_XmlParse ''coverage.xml'', Ev_XmlCoverageReporter [''coverage.xml''] None,
         Ev_HtmlReportGenerator (Some ''style.css''),
         Ev_Open ''report.html'', Ev_Write ''report.html'' ''<html>'',
         Ev_Open ''style.css'', Ev_Write ''style.css'' ''css'',
         Ev_StringReportGenerator, Ev_Stdout ''report''], Inr (Fin 100)) \<and>
   (\<exists>u. path_relpath sample_env ''style.css'' (path_dirname sample_env ''report.html'') = Inr u) \<and>
   Ev_Open ''style.css'' \<notin> set (fst (generate_coverage_report sample_env [''coverage.xml'']
     ''origin/master'' None (Some ''style.css'') False False None None))"
proof -
  let ?tr = "[Ev_GitDiffReporter \<lparr>dr_compare_branch = ''origin/master'', dr_ignore_staged = False,
           dr_ignore_unstaged = False, dr_exclude = None\<rparr>,
         Ev_XmlParse ''coverage.xml'', Ev_XmlCoverageReporter [''coverage.xml''] None,
         Ev_HtmlReportGenerator (Some ''style.css''),
         Ev_Open ''report.html'', Ev_Write ''report.html'' ''<html>'',
         Ev_Open ''style.css'', Ev_Write ''style.css'' ''css'',
         Ev_StringReportGenerator, Ev_Stdout ''report'']"
  have h: "generate_coverage_report sample_env [''coverage.xml''] ''origin/master'' (Some ''report.html'')
     (Some ''style.css'') False False None None = (?tr, Inr (Fin 100))"
    by code_simp
  note t = css_file_effects[of "''style.css''" sample_env "[''coverage.xml'']" "''origin/master''"
      "''style.css''" False False None None "''<html>''" "''report.html''" ?tr "Fin 100"]
  from t h have "\<exists>u. path_relpath sample_env ''style.css'' (path_dirname sample_env ''report.html'') = Inr u"
    by blast
  moreover from t have "Ev_Open ''style.css'' \<notin> set (fst (generate_coverage_report sample_env [''coverage.xml'']
     ''origin/master'' None (Some ''style.css'') False False None None))"
    by (rule conjunct1)
  ultimately show ?thesis using h
    by simp
qed

text \<open>
  In the sample environment \<^verbatim>\<open>sys.argv\<close> is \<^verbatim>\<open>['diff-cover', 'coverage.xml']\<close>. A call
  with \<^verbatim>\<open>['cov.xml']\<close> parses nothing and is rejected; a call with \<^verbatim>\<open>None\<close> parses
  \<^verbatim>\<open>['coverage.xml']\<close> and runs the report on it; a call with
  \<^verbatim>\<open>['prog', 'coverage.xml']\<close> is the same run.
\<close>

theorem main_argv_witness:
  "parse_coverage_args (py_float sample_env) (drop 1 (effective_argv sample_env (Some [''cov.xml''])))
     = Inl (UsageError ''the following arguments are required: coverage_xml'') \<and>
   main sample_env (Some [''cov.xml'']) None
     = ([], Inl (UsageError ''the following arguments are required: coverage_xml'')) \<and>
   parse_coverage_args (py_float sample_env) (drop 1 (effective_argv sample_env None))
     = Inr \<lparr> coverage_xml = [''coverage.xml''], html_report = None, external_css_file = None,
             compare_branch = ''origin/master'', fail_under = Fin 0, ignore_staged = False,
             ignore_unstaged = False, exclude = None,
             src_roots = [''src/main/java'', ''src/test/java''] \<rparr> \<and>
   main sample_env None None
     = ([Ev_SetCwd None,
         Ev_GitDiffReporter \<lparr>dr_compare_branch = ''origin/master'', dr_ignore_staged = False,
           dr_ignore_unstaged = False, dr_exclude = None\<rparr>,
         Ev_XmlParse ''coverage.xml'',
         Ev_XmlCoverageReporter [''coverage.xml''] (Some [''src/main/java'', ''src/test/java'']),
         Ev_StringReportGenerator, Ev_Stdout ''report''], Inr 0) \<and>
   main sample_env (Some [''prog'', ''coverage.xml'']) None = main sample_env None None"
proof -
  let ?d = "\<lparr> coverage_xml = [''coverage.xml''], html_report = None, external_css_file = None,
             compare_branch = ''origin/master'', fail_under = Fin 0, ignore_staged = False,
             ignore_unstaged = False, exclude = None,
             src_roots = [''src/main/java'', ''src/test/java''] \<rparr>"
  have l: "parse_coverage_args (py_float sample_env) (drop 1 (effective_argv sample_env (Some [''cov.xml''])))
     = Inl (UsageError ''the following arguments are required: coverage_xml'')"
    by code_simp
  have r: "parse_coverage_args (py_float sample_env) (drop 1 (effective_argv sample_env None)) = Inr ?d"
    by code_simp
  have g: "generate_coverage_report sample_env (coverage_xml ?d) (compare_branch ?d) (html_report ?d)
                (external_css_file ?d) (ignore_staged ?d) (ignore_unstaged ?d) (exclude ?d)
                (Some (src_roots ?d))
     = ([Ev_GitDiffReporter \<lparr>dr_compare_branch = ''origin/master'', dr_ignore_staged = False,
           dr_ignore_unstaged = False, dr_exclude = None\<rparr>,
         Ev_XmlParse ''coverage.xml'',
         Ev_XmlCoverageReporter [''coverage.xml''] (Some [''src/main/java'', ''src/test/java'']),
         Ev_StringReportGenerator, Ev_Stdout ''report''], Inr (Fin 100))"
    by code_simp
  have e: "sample_env\<lparr>sys_argv := [''diff-cover'', ''coverage.xml'']\<rparr> = sample_env"
    by (simp add: sample_env_def)
  note t1 = main_argv[of sample_env "''prog''" "[''coverage.xml'']" "Some [''cov.xml'']"
      "UsageError ''the following arguments are required: coverage_xml''" None ?d "''diff-cover''"]
  note t2 = main_argv[of sample_env "''prog''" "[''coverage.xml'']" None
      "UsageError ''the following arguments are required: coverage_xml''" None ?d "''diff-cover''"]
  from t1 l have m1: "main sample_env (Some [''cov.xml'']) None
     = ([], Inl (UsageError ''the following arguments are required: coverage_xml''))"
    by blast
  from t2 r have "main sample_env None None =
        (case generate_coverage_report sample_env (coverage_xml ?d) (compare_branch ?d) (html_report ?d)
                (external_css_file ?d) (ignore_staged ?d) (ignore_unstaged ?d) (exclude ?d)
                (Some (src_roots ?d)) of
           (tr, Inl e') \<Rightarrow> (Ev_SetCwd None # tr, Inl e')
         | (tr, Inr percent) \<Rightarrow>
             if py_ge percent (fail_under ?d) then (Ev_SetCwd None # tr, Inr 0)
             else (Ev_SetCwd None # tr @ [Ev_LogError (fail_under ?d)], Inr 1))"
    by blast
  then have m2: "main sample_env None None
     = ([Ev_SetCwd None,
         Ev_GitDiffReporter \<lparr>dr_compare_branch = ''origin/master'', dr_ignore_staged = False,
           dr_ignore_unstaged = False, dr_exclude = None\<rparr>,
         Ev_XmlParse ''coverage.xml'',
         Ev_XmlCoverageReporter [''coverage.xml''] (Some [''src/main/java'', ''src/test/java'']),
         Ev_StringReportGenerator, Ev_Stdout ''report''], Inr 0)"
    by (simp only: g) simp
  have m3: "main sample_env (Some [''prog'', ''coverage.xml'']) None = main sample_env None None"
    using t2[THEN conjunct2, THEN conjunct2, THEN conjunct2, THEN conjunct2, THEN conjunct2,
        THEN conjunct2, THEN conjunct2, THEN conjunct2, THEN conjunct1]
    unfolding e .
  from l r m1 m2 m3 show ?thesis
    by (simp only: simp_thms)
qed

subsection \<open>The parser on plain strings\<close>

lemma parse_optional_plain: "\<not> startswith a ''-'' \<Longrightarrow> parse_optional a = Inr None"
  by (cases a) (auto simp: parse_optional_def startswith_def)

lemma plain_not_dashes: "\<not> startswith a ''-'' \<Longrightarrow> a \<noteq> ''--''"
  by (auto simp: startswith_def)

lemma classify_plain:
  "\<forall>a \<in> set as. \<not> startswith a ''-'' \<Longrightarrow> classify as = Inr (map (\<lambda>s. (s, PA)) as)"
  by (induction as) (simp_all add: parse_optional_plain plain_not_dashes)

lemma classify_plain_append:
  assumes "\<forall>a \<in> set as. \<not> startswith a ''-''" and "classify bs = Inr r"
  shows "classify (as @ bs) = Inr (map (\<lambda>s. (s, PA)) as @ r)"
  using assms by (induction as) (simp_all add: parse_optional_plain plain_not_dashes)

lemma takeWhile_PA_all: "P PA \<Longrightarrow> takeWhile P (map (\<lambda>x. PA) as) = map (\<lambda>x. PA) as"
  by (induction as) auto

lemma takeWhile_PA_run:
  "P PA \<Longrightarrow> \<not> P y \<Longrightarrow> takeWhile P (map (\<lambda>x. PA) as @ y # ys) = map (\<lambda>x. PA) as"
  by (induction as) auto

lemma match_positional_plain:
  assumes "as \<noteq> []" and "t = [] \<or> is_PO (snd (hd t))"
  shows "match_positional (map (\<lambda>x. PA) as @ map snd t) = Some (length as)"
proof -
  from assms(1) obtain a as' where as: "as = a # as'"
    by (cases as) auto
  have "takeWhile (\<lambda>p. is_PA p \<or> is_PDash p) (map (\<lambda>x. PA) as' @ map snd t)
        = map (\<lambda>x. PA) as'"
  proof (cases t)
    case Nil
    then show ?thesis by (simp add: takeWhile_PA_all)
  next
    case (Cons x xs)
    with assms(2) have "\<not> (is_PA (snd x) \<or> is_PDash (snd x))"
      by (cases "snd x") auto
    with Cons show ?thesis
      by (simp add: takeWhile_PA_run)
  qed
  then show ?thesis
    by (simp add: match_positional_def as)
qed

lemma remove1_plain: "\<forall>a \<in> set as. \<not> startswith a ''-'' \<Longrightarrow> remove1 ''--'' as = as"
  by (rule remove1_idem) (auto simp: startswith_def)

lemma consume_positionals_plain:
  assumes "as \<noteq> []" and "\<forall>a \<in> set as. \<not> startswith a ''-''"
    and "t = [] \<or> is_PO (snd (hd t))" and "ns_coverage_xml st = None"
  shows "consume_positionals st (map (\<lambda>s. (s, PA)) as @ t)
         = (st\<lparr>ns_coverage_xml := Some as\<rparr>, length as)"
  using assms
  by (simp add: consume_positionals_def match_positional_plain remove1_plain o_def)

lemma parse_loop_plain:
  assumes "as \<noteq> []" and "\<forall>a \<in> set as. \<not> startswith a ''-''" and "ns_coverage_xml st = None"
  shows "parse_loop fl st (map (\<lambda>s. (s, PA)) as) = Inr (st\<lparr>ns_coverage_xml := Some as\<rparr>)"
proof -
  have n: "\<not> list_ex (\<lambda>p. is_PO (snd p)) (map (\<lambda>s. (s, PA)) as)"
    by (simp add: list_ex_iff)
  have c: "consume_positionals st (map (\<lambda>s. (s, PA)) as) = (st\<lparr>ns_coverage_xml := Some as\<rparr>, length as)"
    using consume_positionals_plain[OF assms(1,2) _ assms(3), of "[]"] by simp
  show ?thesis
    by (subst parse_loop.simps) (simp add: n c)
qed

lemma parse_plain:
  assumes "argv \<noteq> []" and "\<forall>a \<in> set argv. \<not> startswith a ''-''" and "fl ''0'' = Some z"
  shows "parse_coverage_args fl argv =
           Inr \<lparr> coverage_xml = argv, html_report = None, external_css_file = None,
                 compare_branch = ''origin/master'', fail_under = z, ignore_staged = False,
                 ignore_unstaged = False, exclude = None,
                 src_roots = [''src/main/java'', ''src/test/java''] \<rparr>"
proof -
  have i: "ns_coverage_xml initial_namespace = None"
    by (simp add: initial_namespace_def)
  show ?thesis
    unfolding parse_coverage_args_def
    by (simp add: classify_plain[OF assms(2)] parse_loop_plain[OF assms(1,2) i] assms(3))
       (simp add: initial_namespace_def assms(3))
qed

text \<open>
  Claim C9. For every argument list of one or more strings none of which starts with
  \<^verbatim>\<open>-\<close> (positional coverage paths, no option), \<^verbatim>\<open>parse_coverage_args\<close> returns the dict
  in which \<^verbatim>\<open>coverage_xml\<close> is the list itself, \<^verbatim>\<open>html_report\<close> and
  \<^verbatim>\<open>external_css_file\<close> are \<^verbatim>\<open>None\<close>, \<^verbatim>\<open>compare_branch\<close> is \<^verbatim>\<open>'origin/master'\<close>,
  \<^verbatim>\<open>fail_under\<close> is the float 0.0 (the default \<^verbatim>\<open>'0'\<close> converted by \<^verbatim>\<open>float\<close>, which maps
  \<^verbatim>\<open>'0'\<close> to 0.0), the two flags are \<^verbatim>\<open>False\<close>, \<^verbatim>\<open>exclude\<close> is \<^verbatim>\<open>None\<close> and \<^verbatim>\<open>src_roots\<close>
  is its default.
\<close>

theorem parse_defaults:
  assumes "argv \<noteq> []" and "\<forall>a \<in> set argv. \<not> startswith a ''-''" and "fl ''0'' = Some (Fin 0)"
  shows "parse_coverage_args fl argv =
           Inr \<lparr> coverage_xml = argv, html_report = None, external_css_file = None,
                 compare_branch = ''origin/master'', fail_under = Fin 0, ignore_staged = False,
                 ignore_unstaged = False, exclude = None,
                 src_roots = [''src/main/java'', ''src/test/java''] \<rparr>"
  using assms by (rule parse_plain)

text \<open>
  Two coverage reports and nothing else on the command line.
\<close>

theorem parse_defaults_witness:
  "[''a.xml'', ''b.xml''] \<noteq> [] \<and> \<not> startswith ''a.xml'' ''-'' \<and> \<not> startswith ''b.xml'' ''-'' \<and>
   sample_float ''0'' = Some (Fin 0) \<and>
   parse_coverage_args sample_float [''a.xml'', ''b.xml''] =
           Inr \<lparr> coverage_xml = [''a.xml'', ''b.xml''], html_report = None, external_css_file = None,
                 compare_branch = ''origin/master'', fail_under = Fin 0, ignore_staged = False,
                 ignore_unstaged = False, exclude = None,
                 src_roots = [''src/main/java'', ''src/test/java''] \<rparr>"
proof -
  have p: "\<forall>a \<in> set [''a.xml'', ''b.xml'']. \<not> startswith a ''-''"
    by (simp add: startswith_def)
  have f: "sample_float ''0'' = Some (Fin 0)"
    by (simp add: sample_float_def)
  from parse_defaults[of "[''a.xml'', ''b.xml'']" sample_float] p f show ?thesis
    by simp
qed

subsection \<open>Single steps of the parse loop\<close>

lemma parse_loop_Nil: "parse_loop fl st [] = Inr st"
  by (subst parse_loop.simps) (simp add: consume_positionals_def match_positional_def)

lemma parse_loop_option_head:
  "parse_loop fl st ((s, PO tup) # following) =
     (case consume_optional fl st tup s following of
        Inl e \<Rightarrow> Inl e
      | Inr (st2, c) \<Rightarrow> parse_loop fl st2 (drop c following))"
  by (subst parse_loop.simps) simp

lemma takeWhile_plain_run:
  "takeWhile (\<lambda>p. \<not> is_PO (snd p)) (map (\<lambda>s. (s, PA)) as @ (s, PO tup) # following)
     = map (\<lambda>s. (s, PA)) as"
  by (induction as) auto

lemma parse_loop_plain_then_option:
  assumes "as \<noteq> []" and "\<forall>a \<in> set as. \<not> startswith a ''-''" and "ns_coverage_xml st = None"
  shows "parse_loop fl st (map (\<lambda>s. (s, PA)) as @ (s, PO tup) # following) =
         parse_loop fl (st\<lparr>ns_coverage_xml := Some as\<rparr>) ((s, PO tup) # following)"
proof -
  have c: "consume_positionals st (map (\<lambda>s. (s, PA)) as @ (s, PO tup) # following)
             = (st\<lparr>ns_coverage_xml := Some as\<rparr>, length as)"
    using consume_positionals_plain[OF assms(1,2) _ assms(3), of "(s, PO tup) # following"] by simp
  show ?thesis
    by (subst parse_loop.simps) (simp add: c takeWhile_plain_run assms(1))
qed

lemma parse_optional_src_roots:
  "parse_optional ''--src-roots'' = Inr (Some (Some SrcRoots, ''--src-roots'', None, None))"
  by (simp add: parse_optional_def option_string_actions_def)

lemma consume_optional_src_roots:
  assumes "roots \<noteq> []"
  shows "consume_optional fl st (Some SrcRoots, ''--src-roots'', None, None) ''--src-roots''
           (map (\<lambda>s. (s, PA)) roots)
         = Inr (st\<lparr>ns_src_roots := roots\<rparr>, length roots)"
proof -
  from assms obtain r rs where roots: "roots = r # rs"
    by (cases roots) auto
  have "match_argument N_Plus (map snd (map (\<lambda>s. (s, PA)) roots)) = Inr (length roots)"
    by (simp add: match_argument_def roots o_def takeWhile_PA_all)
  then show ?thesis
    by (simp add: consume_optional_def o_def)
qed

lemma parse_src_roots:
  assumes "paths \<noteq> []" and "\<forall>a \<in> set paths. \<not> startswith a ''-''"
    and "roots \<noteq> []" and "\<forall>a \<in> set roots. \<not> startswith a ''-''"
    and "fl ''0'' = Some z"
  shows "parse_coverage_args fl (paths @ ''--src-roots'' # roots) =
           Inr \<lparr> coverage_xml = paths, html_report = None, external_css_file = None,
                 compare_branch = ''origin/master'', fail_under = z, ignore_staged = False,
                 ignore_unstaged = False, exclude = None, src_roots = roots \<rparr>"
proof -
  let ?tup = "(Some SrcRoots, ''--src-roots'', None, None)"
  have "classify (''--src-roots'' # roots) = Inr ((''--src-roots'', PO ?tup) # map (\<lambda>s. (s, PA)) roots)"
    by (simp add: parse_optional_src_roots classify_plain[OF assms(4)])
  then have c: "classify (paths @ ''--src-roots'' # roots)
      = Inr (map (\<lambda>s. (s, PA)) paths @ (''--src-roots'', PO ?tup) # map (\<lambda>s. (s, PA)) roots)"
    by (rule classify_plain_append[OF assms(2)])
  have i: "ns_coverage_xml initial_namespace = None"
    by (simp add: initial_namespace_def)
  have l: "parse_loop fl initial_namespace
             (map (\<lambda>s. (s, PA)) paths @ (''--src-roots'', PO ?tup) # map (\<lambda>s. (s, PA)) roots)
           = Inr (initial_namespace\<lparr>ns_coverage_xml := Some paths, ns_src_roots := roots\<rparr>)"
    by (simp add: parse_loop_plain_then_option[OF assms(1,2) i] parse_loop_option_head
        consume_optional_src_roots[OF assms(3)] parse_loop_Nil)
  show ?thesis
    unfolding parse_coverage_args_def
    by (simp add: c l assms(5)) (simp add: initial_namespace_def assms(5))
qed


subsection \<open>What reaches the coverage reporter\<close>

lemma html_block_events:
  "e \<in> set (fst (html_block env coverage diff html css)) \<Longrightarrow>
     (\<exists>u. e = Ev_HtmlReportGenerator u) \<or> (\<exists>q. e = Ev_Open q) \<or> (\<exists>q s. e = Ev_Write q s)"
  unfolding html_block_def by (auto split: option.splits sum.splits)

lemma generate_coverage_report_reporter:
  assumes "Ev_XmlCoverageReporter xs sr' \<in> set (fst (generate_coverage_report env xml cb html css st ust ex sr))"
  shows "sr' = sr \<and> map Inr xs = map (xml_parse env) xml"
proof -
  obtain tr1 r1 where p: "parse_roots (xml_parse env) xml = (tr1, r1)"
    by (cases "parse_roots (xml_parse env) xml")
  have e1: "Ev_XmlCoverageReporter xs sr' \<notin> set tr1"
    using parse_roots_events[of _ "xml_parse env" xml] p by fastforce
  show ?thesis
  proof (cases r1)
    case (Inl e)
    with assms p e1 show ?thesis
      by (simp add: generate_coverage_report_def)
  next
    case (Inr xml_roots)
    obtain tr3 r3 where h: "html_block env \<lparr>cr_xml_roots = xml_roots, cr_src_roots = sr\<rparr>
             \<lparr>dr_compare_branch = cb, dr_ignore_staged = st, dr_ignore_unstaged = ust, dr_exclude = ex\<rparr>
             html css = (tr3, r3)"
      by (cases "html_block env \<lparr>cr_xml_roots = xml_roots, cr_src_roots = sr\<rparr>
             \<lparr>dr_compare_branch = cb, dr_ignore_staged = st, dr_ignore_unstaged = ust, dr_exclude = ex\<rparr>
             html css")
    have e3: "Ev_XmlCoverageReporter xs sr' \<notin> set tr3"
    proof
      assume "Ev_XmlCoverageReporter xs sr' \<in> set tr3"
      then have "Ev_XmlCoverageReporter xs sr' \<in> set (fst (html_block env
             \<lparr>cr_xml_roots = xml_roots, cr_src_roots = sr\<rparr>
             \<lparr>dr_compare_branch = cb, dr_ignore_staged = st, dr_ignore_unstaged = ust, dr_exclude = ex\<rparr>
             html css))"
        by (simp add: h)
      from html_block_events[OF this] show False
        by auto
    qed
    from p Inr have m: "map (xml_parse env) xml = map Inr xml_roots"
      using parse_roots_Inr by blast
    from assms p Inr h e1 e3 have "xs = xml_roots \<and> sr' = sr"
      unfolding generate_coverage_report_def
      by (auto simp: Let_def split: option.splits sum.splits)
    with m show ?thesis by simp
  qed
qed

lemma main_reporter:
  assumes "Ev_XmlCoverageReporter xs sr \<in> set (fst (main env argv directory))"
  shows "\<exists>d. parse_coverage_args (py_float env) (drop 1 (effective_argv env argv)) = Inr d \<and>
             sr = Some (src_roots d) \<and> map Inr xs = map (xml_parse env) (coverage_xml d)"
proof (cases "parse_coverage_args (py_float env) (drop 1 (effective_argv env argv))")
  case (Inl e)
  with assms show ?thesis by (simp add: main_def)
next
  case (Inr d)
  obtain tr r where g: "generate_coverage_report env
                  (coverage_xml d) (compare_branch d) (html_report d)
                  (external_css_file d) (ignore_staged d) (ignore_unstaged d)
                  (exclude d) (Some (src_roots d)) = (tr, r)"
    by (cases "generate_coverage_report env
                  (coverage_xml d) (compare_branch d) (html_report d)
                  (external_css_file d) (ignore_staged d) (ignore_unstaged d)
                  (exclude d) (Some (src_roots d))")
  from assms Inr g have "Ev_XmlCoverageReporter xs sr \<in> set tr"
    by (auto simp: main_def split: sum.splits if_splits)
  with g generate_coverage_report_reporter[of xs sr env "coverage_xml d" "compare_branch d"
      "html_report d" "external_css_file d" "ignore_staged d" "ignore_unstaged d" "exclude d"
      "Some (src_roots d)"]
  have "sr = Some (src_roots d) \<and> map Inr xs = map (xml_parse env) (coverage_xml d)"
    by simp
  with Inr show ?thesis by simp
qed

subsection \<open>The positional argument is never empty\<close>

lemma wf_args_all_PA: "list_all (\<lambda>p. snd p = PA) (map (\<lambda>s. (s, PA)) as)"
  by (induction as) auto

lemma classify_wf: "classify argv = Inr rest \<Longrightarrow> wf_args rest"
proof (induction argv arbitrary: rest)
  case Nil
  then show ?case by simp
next
  case (Cons a as)
  show ?case
  proof (cases "a = ''--''")
    case True
    with Cons.prems show ?thesis
      by (auto simp: wf_args_all_PA)
  next
    case False
    with Cons.prems obtain t r where t: "parse_optional a = Inr t" and r: "classify as = Inr r"
      and rest: "rest = (a, (case t of None \<Rightarrow> PA | Some tup \<Rightarrow> PO tup)) # r"
      by (auto split: sum.splits)
    from Cons.IH[OF r] False rest show ?thesis
      by (cases t) auto
  qed
qed

lemma wf_args_no_option_after_dash:
  "list_all (\<lambda>p. snd p = PA) r \<Longrightarrow> \<not> list_ex (\<lambda>p. is_PO (snd p)) r"
  by (induction r) auto

lemma dropWhile_all_PA:
  "list_all (\<lambda>p. snd p = PA) r \<Longrightarrow> dropWhile (\<lambda>p. \<not> is_PO (snd p)) r = []"
  by (induction r) auto

lemma wf_args_dropWhile:
  "wf_args r \<Longrightarrow> wf_args (dropWhile (\<lambda>p. \<not> is_PO (snd p)) r)"
  by (induction r rule: wf_args.induct) (simp_all add: dropWhile_all_PA)

lemma wf_args_drop_PA:
  "wf_args f \<Longrightarrow> list_all (\<lambda>p. is_PA (snd p)) (take c f) \<Longrightarrow> wf_args (drop c f)"
proof (induction f arbitrary: c rule: wf_args.induct)
  case 1
  then show ?case by simp
next
  case (2 s r)
  then show ?case by (cases c) auto
next
  case (3 s r)
  then show ?case by (cases c) auto
next
  case (4 s t r)
  then show ?case by (cases c) auto
qed

lemma wf_args_drop_matched:
  "wf_args r \<Longrightarrow> list_ex (\<lambda>p. is_PO (snd p)) r \<Longrightarrow>
     wf_args (drop (length (takeWhile (\<lambda>p. is_PA p \<or> is_PDash p) (map snd r))) r)"
proof (induction r rule: wf_args.induct)
  case (2 s r)
  then show ?case using wf_args_no_option_after_dash[of r] by simp
qed auto

lemma match_positional_wf:
  assumes "wf_args rest" and "match_positional (map snd rest) = Some k"
  shows "remove1 ''--'' (map fst (take k rest)) \<noteq> []"
proof (cases rest rule: wf_args.cases)
  case 1
  with assms show ?thesis by (simp add: match_positional_def)
next
  case (2 s r)
  show ?thesis
  proof (cases r)
    case Nil
    with 2 assms show ?thesis by (simp add: match_positional_def)
  next
    case (Cons x xs)
    with 2 assms(1) have x: "snd x = PA" by simp
    with 2 Cons assms(2) have "2 \<le> k"
      by (auto simp: match_positional_def)
    then obtain k' where "k = Suc (Suc k')"
      by (metis Suc_le_D numeral_2_eq_2 Suc_le_mono)
    with 2 Cons show ?thesis by simp
  qed
next
  case (3 s r)
  with assms obtain k' where "k = Suc k'"
    by (auto simp: match_positional_def)
  with 3 assms(1) show ?thesis by auto
next
  case (4 s t r)
  with assms show ?thesis by (simp add: match_positional_def)
qed

lemma consume_positionals_inv:
  assumes "wf_args rest" and "ns_coverage_xml st \<noteq> Some []"
  shows "ns_coverage_xml (fst (consume_positionals st rest)) \<noteq> Some []"
  using assms match_positional_wf[OF assms(1)]
  by (auto simp: consume_positionals_def split: option.splits)

lemma consume_positionals_extras: "extras (fst (consume_positionals st rest)) = extras st"
  by (auto simp: consume_positionals_def split: option.splits)

lemma match_argument_PA: "match_argument n ps = Inr c \<Longrightarrow> list_all is_PA (take c ps)"
proof (cases n)
  case N_None
  then show "match_argument n ps = Inr c \<Longrightarrow> list_all is_PA (take c ps)"
    by (auto simp: match_argument_def split: list.splits pat.splits)
next
  case N_Zero
  then show "match_argument n ps = Inr c \<Longrightarrow> list_all is_PA (take c ps)"
    by (auto simp: match_argument_def)
next
  case N_Plus
  have "list_all is_PA (take (length (takeWhile is_PA r)) r)" for r
    by (simp add: takeWhile_eq_take[symmetric] list_all_iff) (auto dest: set_takeWhileD)
  with N_Plus show "match_argument n ps = Inr c \<Longrightarrow> list_all is_PA (take c ps)"
    by (auto simp: match_argument_def split: list.splits pat.splits)
qed

lemma take_action_coverage_xml:
  "take_action fl st a args = Inr st' \<Longrightarrow> ns_coverage_xml st' = ns_coverage_xml st"
  by (cases "(fl, st, a, args)" rule: take_action.cases) (auto split: option.splits)

lemma take_actions_coverage_xml:
  "take_actions fl st ts = Inr st' \<Longrightarrow> ns_coverage_xml st' = ns_coverage_xml st"
proof (induction ts arbitrary: st)
  case Nil
  then show ?case by simp
next
  case (Cons t ts)
  obtain a args where t: "t = (a, args)" by (cases t)
  from Cons.prems t obtain st1 where s: "take_action fl st a args = Inr st1"
    and r: "take_actions fl st1 ts = Inr st'"
    by (auto split: sum.splits)
  from Cons.IH[OF r] take_action_coverage_xml[OF s] show ?case by simp
qed


lemma consume_chain_count:
  "consume_chain a os sep ea following acc = Inr (ts, ex, c) \<Longrightarrow>
     list_all (\<lambda>p. is_PA (snd p)) (take c following)"
proof (induction a os sep ea following acc rule: consume_chain.induct)
  case (1 action option_string sep following acc)
  then obtain c' where m: "match_argument (nargs_of action) (map snd following) = Inr c'" and "c = c'"
    by (auto split: sum.splits)
  with match_argument_PA[OF m] show ?case
    by (auto simp: list_all_iff take_map)
next
  case (2 action option_string sep explicit_arg following acc)
  from "2.prems" obtain b where b: "match_argument (nargs_of action) [PA] = Inr b"
    by (auto split: sum.splits)
  show ?case
  proof (cases "b = 0 \<and> option_string ! 1 \<noteq> CHR ''-'' \<and> explicit_arg \<noteq> []")
    case False
    with "2.prems" b show ?thesis
      by (auto split: if_splits)
  next
    case True
    show ?thesis
    proof (cases "(sep \<noteq> None \<and> sep \<noteq> Some []) \<or> hd explicit_arg = CHR ''-''")
      case e: True
      with "2.prems" b True show ?thesis by auto
    next
      case e: False
      show ?thesis
      proof (cases "map_of option_string_actions [CHR ''-'', hd explicit_arg]")
        case None
        with "2.prems" b True e show ?thesis by auto
      next
        case (Some x2)
        show ?thesis
        proof (cases "tl explicit_arg = []")
          case t: True
          with "2.prems" b True e Some
          have "consume_chain x2 [CHR ''-'', hd explicit_arg] None None following (acc @ [(action, [])])
                  = Inr (ts, ex, c)"
            by (auto split: if_splits)
          with "2.IH"(1)[OF b True e Some t] show ?thesis by simp
        next
          case t: False
          show ?thesis
          proof (cases "hd (tl explicit_arg) = CHR ''=''")
            case q: True
            with "2.prems" b True e Some t
            have "consume_chain x2 [CHR ''-'', hd explicit_arg] (Some ''='')
                    (Some (tl (tl explicit_arg))) following (acc @ [(action, [])]) = Inr (ts, ex, c)"
              by (auto split: if_splits)
            with "2.IH"(2)[OF b True e Some t q] show ?thesis by simp
          next
            case q: False
            with "2.prems" b True e Some t
            have "consume_chain x2 [CHR ''-'', hd explicit_arg] (Some [])
                    (Some (tl explicit_arg)) following (acc @ [(action, [])]) = Inr (ts, ex, c)"
              by (auto split: if_splits)
            with "2.IH"(3)[OF b True e Some t q] show ?thesis by simp
          qed
        qed
      qed
    qed
  qed
qed

lemma consume_optional_inv:
  assumes "consume_optional fl st tup s following = Inr (st2, c)"
  shows "ns_coverage_xml st2 = ns_coverage_xml st \<and>
         list_all (\<lambda>p. is_PA (snd p)) (take c following)"
proof -
  obtain a os sep ea where tup: "tup = (a, os, sep, ea)"
    by (cases tup)
  show ?thesis
  proof (cases a)
    case None
    with assms tup show ?thesis
      by (auto simp: consume_optional_def)
  next
    case (Some action)
    with assms tup obtain ts ex where
      ch: "consume_chain action os sep ea following [] = Inr (ts, ex, c)"
      and ta: "take_actions fl (st\<lparr>extras := extras st @ ex\<rparr>) ts = Inr st2"
      by (auto simp: consume_optional_def split: sum.splits)
    from take_actions_coverage_xml[OF ta] consume_chain_count[OF ch] show ?thesis
      by simp
  qed
qed

lemma match_positional_drop_wf:
  assumes "wf_args rest" and "list_ex (\<lambda>p. is_PO (snd p)) rest"
    and "match_positional (map snd rest) = Some k"
  shows "wf_args (drop k rest)"
proof (cases rest rule: wf_args.cases)
  case 1
  with assms show ?thesis by simp
next
  case (2 s r)
  with assms(1,2) wf_args_no_option_after_dash[of r] show ?thesis by simp
next
  case (3 s r)
  with assms(3) have k: "k = Suc (length (takeWhile (\<lambda>p. is_PA p \<or> is_PDash p) (map snd r)))"
    by (auto simp: match_positional_def)
  from 3 assms(1,2) have "wf_args r" and "list_ex (\<lambda>p. is_PO (snd p)) r"
    by simp_all
  from wf_args_drop_matched[OF this] 3 k show ?thesis by simp
next
  case (4 s t r)
  with assms show ?thesis by (simp add: match_positional_def)
qed

lemma consume_positionals_drop_wf:
  assumes "wf_args rest" and "list_ex (\<lambda>p. is_PO (snd p)) rest"
  shows "wf_args (drop (snd (consume_positionals st rest)) rest)"
  using assms match_positional_drop_wf[OF assms]
  by (auto simp: consume_positionals_def split: option.splits)

lemma first_option:
  assumes "list_ex (\<lambda>p. is_PO (snd p)) rest"
  shows "\<exists>s tup following.
           drop (length (takeWhile (\<lambda>p. \<not> is_PO (snd p)) rest)) rest = (s, PO tup) # following"
proof -
  have d: "drop (length (takeWhile (\<lambda>p. \<not> is_PO (snd p)) rest)) rest
             = dropWhile (\<lambda>p. \<not> is_PO (snd p)) rest"
    by (simp add: dropWhile_eq_drop)
  from assms have "dropWhile (\<lambda>p. \<not> is_PO (snd p)) rest \<noteq> []"
    by (auto simp: list_ex_iff dropWhile_eq_Nil_conv)
  then obtain x xs where x: "dropWhile (\<lambda>p. \<not> is_PO (snd p)) rest = x # xs"
    by (cases "dropWhile (\<lambda>p. \<not> is_PO (snd p)) rest") auto
  then have "is_PO (snd x)"
    using hd_dropWhile[of "\<lambda>p. \<not> is_PO (snd p)" rest] by auto
  then obtain tup where "snd x = PO tup"
    by (cases "snd x") auto
  then have "x = (fst x, PO tup)"
    by (metis prod.collapse)
  with d x show ?thesis by metis
qed

lemma parse_loop_inv:
  "parse_loop fl st rest = Inr st' \<Longrightarrow> wf_args rest \<Longrightarrow> ns_coverage_xml st \<noteq> Some [] \<Longrightarrow>
     ns_coverage_xml st' \<noteq> Some []"
proof (induction fl st rest arbitrary: st' rule: parse_loop.induct)
  case (1 fl st rest)
  let ?n = "length (takeWhile (\<lambda>p. \<not> is_PO (snd p)) rest)"
  show ?case
  proof (cases "list_ex (\<lambda>p. is_PO (snd p)) rest")
    case False
    with "1.prems"(1) have "ns_coverage_xml st' = ns_coverage_xml (fst (consume_positionals st rest))"
      by (subst (asm) parse_loop.simps) (auto split: prod.splits)
    with consume_positionals_inv[OF "1.prems"(2,3)] show ?thesis by simp
  next
    case True
    then have nn: "\<not> \<not> list_ex (\<lambda>p. is_PO (snd p)) rest" by simp
    show ?thesis
    proof (cases "?n \<noteq> 0 \<and> 0 < snd (consume_positionals st rest)")
      case c: True
      from "1.prems"(1) True c
      have p: "parse_loop fl (fst (consume_positionals st rest))
                 (drop (snd (consume_positionals st rest)) rest) = Inr st'"
        by (subst (asm) parse_loop.simps) simp
      show ?thesis
        by (rule "1.IH"(1)[OF nn refl c p consume_positionals_drop_wf[OF "1.prems"(2) True]
              consume_positionals_inv[OF "1.prems"(2,3)]])
    next
      case c: False
      define st1 where "st1 = (if ?n \<noteq> 0 then st\<lparr>extras := extras st @ map fst (take ?n rest)\<rparr> else st)"
      from first_option[OF True] obtain s tup following where
        d: "drop ?n rest = (s, PO tup) # following"
        by blast
      from "1.prems"(1) True c d
      have e: "(case consume_optional fl st1 tup s following of
                  Inl e \<Rightarrow> Inl e
                | Inr (st2, c) \<Rightarrow> parse_loop fl st2 (drop c following)) = Inr st'"
        by (subst (asm) parse_loop.simps) (auto simp: st1_def Let_def split: if_splits)
      then obtain st2 k where co: "consume_optional fl st1 tup s following = Inr (st2, k)"
        and p: "parse_loop fl st2 (drop k following) = Inr st'"
        by (auto split: sum.splits)
      have "wf_args (drop ?n rest)"
        using wf_args_dropWhile[OF "1.prems"(2)] by (simp add: dropWhile_eq_drop)
      with d have wf: "wf_args following" by simp
      from consume_optional_inv[OF co] have x2: "ns_coverage_xml st2 = ns_coverage_xml st1"
        and pa: "list_all (\<lambda>p. is_PA (snd p)) (take k following)"
        by simp_all
      have x1: "ns_coverage_xml st1 = ns_coverage_xml st"
        by (simp add: st1_def)
      show ?thesis
        by (rule "1.IH"(2)[OF nn refl c st1_def d refl refl co refl p wf_args_drop_PA[OF wf pa]])
           (simp add: x1 x2 "1.prems"(3))
    qed
  qed
qed

lemma parse_coverage_args_nonempty:
  assumes "parse_coverage_args fl argv = Inr d"
  shows "coverage_xml d \<noteq> []"
proof -
  from assms obtain rest st where c: "classify argv = Inr rest"
    and l: "parse_loop fl initial_namespace rest = Inr st"
    and x: "ns_coverage_xml st = Some (coverage_xml d)"
    by (auto simp: parse_coverage_args_def split: sum.splits option.splits if_splits)
  have "ns_coverage_xml initial_namespace \<noteq> Some []"
    by (simp add: initial_namespace_def)
  from parse_loop_inv[OF l classify_wf[OF c] this] x show ?thesis by auto
qed

lemma parse_coverage_args_Nil:
  "parse_coverage_args fl [] = Inl (UsageError ''the following arguments are required: coverage_xml'')
   \<or> parse_coverage_args fl [] = Inl (UsageError ''invalid float value'')"
  by (simp add: parse_coverage_args_def parse_loop_Nil initial_namespace_def split: option.splits)

lemma generate_coverage_report_parsed:
  assumes "parse_roots (xml_parse env) xml = (tr1, Inr xml_roots)"
  shows "\<exists>rest. fst (generate_coverage_report env xml cb html css st ust ex sr)
                  = Ev_GitDiffReporter
                      \<lparr>dr_compare_branch = cb, dr_ignore_staged = st, dr_ignore_unstaged = ust,
                         dr_exclude = ex\<rparr>
                    # tr1 @ Ev_XmlCoverageReporter xml_roots sr # rest \<and>
                (\<forall>e \<in> set rest. (\<forall>p. e \<noteq> Ev_XmlParse p) \<and> (\<forall>xs s. e \<noteq> Ev_XmlCoverageReporter xs s))"
proof -
  obtain tr3 r3 where h: "html_block env \<lparr>cr_xml_roots = xml_roots, cr_src_roots = sr\<rparr>
             \<lparr>dr_compare_branch = cb, dr_ignore_staged = st, dr_ignore_unstaged = ust, dr_exclude = ex\<rparr>
             html css = (tr3, r3)"
    by (cases "html_block env \<lparr>cr_xml_roots = xml_roots, cr_src_roots = sr\<rparr>
             \<lparr>dr_compare_branch = cb, dr_ignore_staged = st, dr_ignore_unstaged = ust, dr_exclude = ex\<rparr>
             html css")
  have e3: "\<forall>e \<in> set tr3. (\<forall>p. e \<noteq> Ev_XmlParse p) \<and> (\<forall>xs s. e \<noteq> Ev_XmlCoverageReporter xs s)"
  proof
    fix e
    assume "e \<in> set tr3"
    then have "e \<in> set (fst (html_block env \<lparr>cr_xml_roots = xml_roots, cr_src_roots = sr\<rparr>
             \<lparr>dr_compare_branch = cb, dr_ignore_staged = st, dr_ignore_unstaged = ust, dr_exclude = ex\<rparr>
             html css))"
      by (simp add: h)
    from html_block_events[OF this]
    show "(\<forall>p. e \<noteq> Ev_XmlParse p) \<and> (\<forall>xs s. e \<noteq> Ev_XmlCoverageReporter xs s)"
      by auto
  qed
  from assms h e3 show ?thesis
    unfolding generate_coverage_report_def
    by (auto simp: Let_def split: option.splits sum.splits)
qed

text \<open>
  Claim C5. When every coverage file parses, \<^verbatim>\<open>generate_coverage_report\<close> parses each path
  of \<^verbatim>\<open>coverage_xml\<close> in order and constructs one \<^verbatim>\<open>XmlCoverageReporter\<close>, with the list of
  all parsed roots in the order of the paths; no other file is parsed and no other reporter
  is constructed. The same holds for \<^verbatim>\<open>main\<close> on a command line of one or more coverage
  paths. An argument list that parses always yields at least one coverage path, and the
  empty argument list does not parse.
\<close>

theorem coverage_inputs_one_reporter:
  "((\<forall>p \<in> set xml. xml_parse env p = Inr (f p)) \<longrightarrow>
      (\<exists>rest. fst (generate_coverage_report env xml cb html css st ust ex sr)
                 = Ev_GitDiffReporter
                     \<lparr>dr_compare_branch = cb, dr_ignore_staged = st, dr_ignore_unstaged = ust,
                        dr_exclude = ex\<rparr>
                   # map Ev_XmlParse xml @ Ev_XmlCoverageReporter (map f xml) sr # rest \<and>
               (\<forall>e \<in> set rest. (\<forall>p. e \<noteq> Ev_XmlParse p) \<and> (\<forall>xs s. e \<noteq> Ev_XmlCoverageReporter xs s)))) \<and>
   (paths \<noteq> [] \<and> (\<forall>a \<in> set paths. \<not> startswith a ''-'') \<and> py_float env ''0'' = Some z \<and>
    (\<forall>p \<in> set paths. xml_parse env p = Inr (f p)) \<longrightarrow>
      (\<exists>rest. fst (main env (Some (prog # paths)) directory)
                 = Ev_SetCwd directory
                   # Ev_GitDiffReporter
                       \<lparr>dr_compare_branch = ''origin/master'', dr_ignore_staged = False,
                          dr_ignore_unstaged = False, dr_exclude = None\<rparr>
                   # map Ev_XmlParse paths
                   @ Ev_XmlCoverageReporter (map f paths) (Some [''src/main/java'', ''src/test/java''])
                   # rest \<and>
               (\<forall>e \<in> set rest. (\<forall>p. e \<noteq> Ev_XmlParse p) \<and> (\<forall>xs s. e \<noteq> Ev_XmlCoverageReporter xs s)))) \<and>
   (parse_coverage_args fl argv = Inr d \<longrightarrow> coverage_xml d \<noteq> []) \<and>
   (\<exists>e. parse_coverage_args fl [] = Inl e)"
proof (intro conjI impI)
  assume "\<forall>p \<in> set xml. xml_parse env p = Inr (f p)"
  from generate_coverage_report_parsed[OF parse_roots_ok[OF this]]
  show "\<exists>rest. fst (generate_coverage_report env xml cb html css st ust ex sr)
                 = Ev_GitDiffReporter
                     \<lparr>dr_compare_branch = cb, dr_ignore_staged = st, dr_ignore_unstaged = ust,
                        dr_exclude = ex\<rparr>
                   # map Ev_XmlParse xml @ Ev_XmlCoverageReporter (map f xml) sr # rest \<and>
               (\<forall>e \<in> set rest. (\<forall>p. e \<noteq> Ev_XmlParse p) \<and> (\<forall>xs s. e \<noteq> Ev_XmlCoverageReporter xs s))"
    by simp
next
  assume a: "paths \<noteq> [] \<and> (\<forall>a \<in> set paths. \<not> startswith a ''-'') \<and> py_float env ''0'' = Some z \<and>
    (\<forall>p \<in> set paths. xml_parse env p = Inr (f p))"
  then have a1: "paths \<noteq> []" and a2: "\<forall>a \<in> set paths. \<not> startswith a ''-''"
    and a3: "py_float env ''0'' = Some z" and a4: "\<forall>p \<in> set paths. xml_parse env p = Inr (f p)"
    by simp_all
  note pa = parse_plain[of paths "py_float env" z, OF a1 a2 a3]
  from generate_coverage_report_parsed[OF parse_roots_ok[OF a4],
      of "''origin/master''" None None False False None "Some [''src/main/java'', ''src/test/java'']"]
  obtain rest where
    g: "fst (generate_coverage_report env paths ''origin/master'' None None False False None
              (Some [''src/main/java'', ''src/test/java'']))
          = Ev_GitDiffReporter
               \<lparr>dr_compare_branch = ''origin/master'', dr_ignore_staged = False,
                  dr_ignore_unstaged = False, dr_exclude = None\<rparr>
            # map Ev_XmlParse paths
            @ Ev_XmlCoverageReporter (map f paths) (Some [''src/main/java'', ''src/test/java'']) # rest"
    and r: "\<forall>e \<in> set rest. (\<forall>p. e \<noteq> Ev_XmlParse p) \<and> (\<forall>xs s. e \<noteq> Ev_XmlCoverageReporter xs s)"
    by blast
  obtain tr res where gr: "generate_coverage_report env paths ''origin/master'' None None False False None
              (Some [''src/main/java'', ''src/test/java'']) = (tr, res)"
    by (cases "generate_coverage_report env paths ''origin/master'' None None False False None
              (Some [''src/main/java'', ''src/test/java''])")
  have "fst (main env (Some (prog # paths)) directory) = Ev_SetCwd directory # tr
        \<or> fst (main env (Some (prog # paths)) directory) = Ev_SetCwd directory # tr @ [Ev_LogError z]"
    by (simp add: main_def effective_argv_def pa gr split: sum.splits)
  with g gr r
  show "\<exists>rest. fst (main env (Some (prog # paths)) directory)
                 = Ev_SetCwd directory
                   # Ev_GitDiffReporter
                       \<lparr>dr_compare_branch = ''origin/master'', dr_ignore_staged = False,
                          dr_ignore_unstaged = False, dr_exclude = None\<rparr>
                   # map Ev_XmlParse paths
                   @ Ev_XmlCoverageReporter (map f paths) (Some [''src/main/java'', ''src/test/java''])
                   # rest \<and>
               (\<forall>e \<in> set rest. (\<forall>p. e \<noteq> Ev_XmlParse p) \<and> (\<forall>xs s. e \<noteq> Ev_XmlCoverageReporter xs s))"
    by auto
next
  assume "parse_coverage_args fl argv = Inr d"
  then show "coverage_xml d \<noteq> []"
    by (rule parse_coverage_args_nonempty)
next
  show "\<exists>e. parse_coverage_args fl [] = Inl e"
    using parse_coverage_args_Nil[of fl] by auto
qed

text \<open>
  Two coverage reports in the sample environment, one report with a flag, and a flag
  without any report.
\<close>

theorem coverage_inputs_one_reporter_witness:
  "xml_parse sample_env ''a.xml'' = Inr ''a.xml'' \<and> xml_parse sample_env ''b.xml'' = Inr ''b.xml'' \<and>
   [''a.xml'', ''b.xml''] \<noteq> [] \<and>
   \<not> startswith ''a.xml'' ''-'' \<and> \<not> startswith ''b.xml'' ''-'' \<and>
   py_float sample_env ''0'' = Some (Fin 0) \<and>
   (\<exists>rest. fst (main sample_env (Some [''diff-cover'', ''a.xml'', ''b.xml'']) None)
              = Ev_SetCwd None
                # Ev_GitDiffReporter
                    \<lparr>dr_compare_branch = ''origin/master'', dr_ignore_staged = False,
                       dr_ignore_unstaged = False, dr_exclude = None\<rparr>
                # [Ev_XmlParse ''a.xml'', Ev_XmlParse ''b.xml'']
                @ Ev_XmlCoverageReporter [''a.xml'', ''b.xml''] (Some [''src/main/java'', ''src/test/java''])
                # rest) \<and>
   parse_coverage_args sample_float [''a.xml'', ''--ignore-staged'']
     = Inr \<lparr> coverage_xml = [''a.xml''], html_report = None, external_css_file = None,
             compare_branch = ''origin/master'', fail_under = Fin 0, ignore_staged = True,
             ignore_unstaged = False, exclude = None,
             src_roots = [''src/main/java'', ''src/test/java''] \<rparr> \<and>
   parse_coverage_args sample_float [''--ignore-staged'']
     = Inl (UsageError ''the following arguments are required: coverage_xml'')"
proof -
  let ?d = "\<lparr> coverage_xml = [''a.xml''], html_report = None, external_css_file = None,
             compare_branch = ''origin/master'', fail_under = Fin 0, ignore_staged = True,
             ignore_unstaged = False, exclude = None,
             src_roots = [''src/main/java'', ''src/test/java''] \<rparr>"
  have x: "\<forall>p \<in> set [''a.xml'', ''b.xml'']. xml_parse sample_env p = Inr p"
    by (simp add: sample_env_def)
  have p: "\<forall>a \<in> set [''a.xml'', ''b.xml'']. \<not> startswith a ''-''"
    by (simp add: startswith_def)
  have z: "py_float sample_env ''0'' = Some (Fin 0)"
    by (simp add: sample_env_def sample_float_def)
  have d: "parse_coverage_args sample_float [''a.xml'', ''--ignore-staged''] = Inr ?d"
    by code_simp
  have n: "parse_coverage_args sample_float [''--ignore-staged'']
     = Inl (UsageError ''the following arguments are required: coverage_xml'')"
    by code_simp
  note t = coverage_inputs_one_reporter[of "[''a.xml'', ''b.xml'']" sample_env "\<lambda>p. p"
      "''origin/master''" None None False False None None "[''a.xml'', ''b.xml'']" "Fin 0"
      "''diff-cover''" None sample_float "[''a.xml'', ''--ignore-staged'']" ?d]
  from t x p z
  have "\<exists>rest. fst (main sample_env (Some [''diff-cover'', ''a.xml'', ''b.xml'']) None)
              = Ev_SetCwd None
                # Ev_GitDiffReporter
                    \<lparr>dr_compare_branch = ''origin/master'', dr_ignore_staged = False,
                       dr_ignore_unstaged = False, dr_exclude = None\<rparr>
                # [Ev_XmlParse ''a.xml'', Ev_XmlParse ''b.xml'']
                @ Ev_XmlCoverageReporter [''a.xml'', ''b.xml''] (Some [''src/main/java'', ''src/test/java''])
                # rest"
    by auto
  moreover from t d have "coverage_xml ?d \<noteq> []"
    by blast
  ultimately show ?thesis using x p z d n
    by simp
qed

subsection \<open>The source roots of every command line\<close>

lemma supplied_not_option:
  "\<not> is_PO (snd x) \<Longrightarrow> supplied_src_roots cur (x # r) = supplied_src_roots cur r"
  by (cases x; cases "snd x") auto

lemma supplied_drop:
  "\<forall>p \<in> set (take k rest). \<not> is_PO (snd p) \<Longrightarrow>
     supplied_src_roots cur (drop k rest) = supplied_src_roots cur rest"
proof (induction rest arbitrary: k)
  case Nil
  then show ?case by simp
next
  case (Cons x xs)
  show ?case
  proof (cases k)
    case 0
    then show ?thesis by simp
  next
    case (Suc k')
    with Cons.prems have "\<not> is_PO (snd x)" and "\<forall>p \<in> set (take k' xs). \<not> is_PO (snd p)"
      by simp_all
    with Cons.IH[of k'] Suc show ?thesis
      by (simp add: supplied_not_option)
  qed
qed

lemma supplied_no_option:
  "\<not> list_ex (\<lambda>p. is_PO (snd p)) rest \<Longrightarrow> supplied_src_roots cur rest = cur"
  by (induction rest) (simp_all add: supplied_not_option)

lemma supplied_absent:
  "\<forall>p \<in> set rest. \<forall>os sep ea. snd p \<noteq> PO (Some SrcRoots, os, sep, ea) \<Longrightarrow>
     supplied_src_roots cur rest = cur"
proof (induction cur rest rule: supplied_src_roots.induct)
  case (1 cur)
  then show ?case by simp
next
  case (2 cur s os sep r)
  then show ?case by auto
next
  case (3 cur s os sep e r)
  then show ?case by auto
qed auto

lemma match_positional_no_option:
  assumes "match_positional (map snd rest) = Some k"
  shows "\<forall>p \<in> set (take k rest). \<not> is_PO (snd p)"
proof -
  let ?ps = "map snd rest"
  let ?d = "takeWhile is_PDash ?ps"
  from assms obtain r' where r: "dropWhile is_PDash ?ps = PA # r'"
    and k: "k = length ?d + 1 + length (takeWhile (\<lambda>p. is_PA p \<or> is_PDash p) r')"
    by (auto simp: match_positional_def Let_def split: list.splits pat.splits)
  have "?ps = ?d @ PA # takeWhile (\<lambda>p. is_PA p \<or> is_PDash p) r' @ dropWhile (\<lambda>p. is_PA p \<or> is_PDash p) r'"
    using takeWhile_dropWhile_id[of is_PDash ?ps] r by simp
  then have "take k ?ps = ?d @ PA # takeWhile (\<lambda>p. is_PA p \<or> is_PDash p) r'"
    by (metis (no_types, lifting) k add.assoc append.assoc append_Cons append_eq_conv_conj
        length_Cons length_append One_nat_def plus_1_eq_Suc add_Suc_right add_Suc)
  moreover have "\<forall>p \<in> set (?d @ PA # takeWhile (\<lambda>p. is_PA p \<or> is_PDash p) r'). \<not> is_PO p"
  proof
    fix p
    assume "p \<in> set (?d @ PA # takeWhile (\<lambda>p. is_PA p \<or> is_PDash p) r')"
    then have "is_PDash p \<or> p = PA \<or> is_PA p"
      by (auto dest: set_takeWhileD)
    then show "\<not> is_PO p"
      by (cases p) auto
  qed
  ultimately have "\<forall>p \<in> set (take k ?ps). \<not> is_PO p"
    by simp
  then show ?thesis
    by (simp add: take_map)
qed

lemma consume_positionals_no_option:
  "\<forall>p \<in> set (take (snd (consume_positionals st rest)) rest). \<not> is_PO (snd p)"
  using match_positional_no_option[of rest]
  by (auto simp: consume_positionals_def split: option.splits)

lemma consume_positionals_src_roots:
  "ns_src_roots (fst (consume_positionals st rest)) = ns_src_roots st"
  by (auto simp: consume_positionals_def split: option.splits)

lemma short_option_not_src_roots:
  "map_of option_string_actions [CHR ''-'', x] = Some a \<Longrightarrow> a \<noteq> SrcRoots"
  by (auto simp: option_string_actions_def split: if_splits)

lemma take_action_src_roots:
  "a \<noteq> SrcRoots \<Longrightarrow> take_action fl st a args = Inr st' \<Longrightarrow> ns_src_roots st' = ns_src_roots st"
  by (cases "(fl, st, a, args)" rule: take_action.cases) (auto split: option.splits)

lemma take_actions_src_roots:
  "\<forall>t \<in> set ts. fst t \<noteq> SrcRoots \<Longrightarrow> take_actions fl st ts = Inr st' \<Longrightarrow>
     ns_src_roots st' = ns_src_roots st"
proof (induction ts arbitrary: st)
  case Nil
  then show ?case by simp
next
  case (Cons t ts)
  obtain a args where t: "t = (a, args)" by (cases t)
  from Cons.prems t obtain st1 where s: "take_action fl st a args = Inr st1"
    and r: "take_actions fl st1 ts = Inr st'"
    by (auto split: sum.splits)
  from Cons.prems(1) t have "a \<noteq> SrcRoots" and "\<forall>t \<in> set ts. fst t \<noteq> SrcRoots"
    by simp_all
  with Cons.IH[OF _ r] take_action_src_roots[OF _ s] show ?case by simp
qed

lemma consume_chain_other:
  "a \<noteq> SrcRoots \<Longrightarrow> \<forall>t \<in> set acc. fst t \<noteq> SrcRoots \<Longrightarrow>
     consume_chain a os sep ea following acc = Inr (ts, ex, c) \<Longrightarrow>
     \<forall>t \<in> set ts. fst t \<noteq> SrcRoots"
proof (induction a os sep ea following acc rule: consume_chain.induct)
  case (1 action option_string sep following acc)
  then show ?case
    by (auto split: sum.splits)
next
  case (2 action option_string sep explicit_arg following acc)
  from "2.prems"(3) obtain b where b: "match_argument (nargs_of action) [PA] = Inr b"
    by (auto split: sum.splits)
  have acc': "\<forall>t \<in> set (acc @ [(action, [])]). fst t \<noteq> SrcRoots"
    using "2.prems"(1,2) by simp
  show ?case
  proof (cases "b = 0 \<and> option_string ! 1 \<noteq> CHR ''-'' \<and> explicit_arg \<noteq> []")
    case False
    with "2.prems" b show ?thesis
      by (auto split: if_splits)
  next
    case True
    show ?thesis
    proof (cases "(sep \<noteq> None \<and> sep \<noteq> Some []) \<or> hd explicit_arg = CHR ''-''")
      case e: True
      with "2.prems" b True show ?thesis by auto
    next
      case e: False
      show ?thesis
      proof (cases "map_of option_string_actions [CHR ''-'', hd explicit_arg]")
        case None
        with "2.prems"(3) b True e have "ts = acc @ [(action, [])]"
          by (auto split: if_splits)
        with acc' show ?thesis by simp
      next
        case (Some x2)
        note ns = short_option_not_src_roots[OF Some]
        show ?thesis
        proof (cases "tl explicit_arg = []")
          case t: True
          with "2.prems"(3) b True e Some
          have "consume_chain x2 [CHR ''-'', hd explicit_arg] None None following (acc @ [(action, [])])
                  = Inr (ts, ex, c)"
            by (auto split: if_splits)
          from "2.IH"(1)[OF b True e Some t ns acc' this] show ?thesis .
        next
          case t: False
          show ?thesis
          proof (cases "hd (tl explicit_arg) = CHR ''=''")
            case q: True
            with "2.prems"(3) b True e Some t
            have "consume_chain x2 [CHR ''-'', hd explicit_arg] (Some ''='')
                    (Some (tl (tl explicit_arg))) following (acc @ [(action, [])]) = Inr (ts, ex, c)"
              by (auto split: if_splits)
            from "2.IH"(2)[OF b True e Some t q ns acc' this] show ?thesis .
          next
            case q: False
            with "2.prems"(3) b True e Some t
            have "consume_chain x2 [CHR ''-'', hd explicit_arg] (Some [])
                    (Some (tl explicit_arg)) following (acc @ [(action, [])]) = Inr (ts, ex, c)"
              by (auto split: if_splits)
            from "2.IH"(3)[OF b True e Some t q ns acc' this] show ?thesis .
          qed
        qed
      qed
    qed
  qed
qed

lemma match_argument_plus_take:
  assumes "match_argument N_Plus (map snd f) = Inr c"
  shows "take c f = takeWhile (\<lambda>p. is_PA (snd p)) f"
proof -
  from assms obtain x r where f: "f = x # r" and x: "snd x = PA"
    and c: "c = Suc (length (takeWhile is_PA (map snd r)))"
    by (cases f) (auto simp: match_argument_def split: pat.splits)
  have "takeWhile (\<lambda>p. is_PA (snd p)) r = take (length (takeWhile is_PA (map snd r))) r"
    by (simp add: takeWhile_map o_def takeWhile_eq_take[symmetric])
  with f x c show ?thesis by simp
qed

lemma consume_optional_src_roots_value:
  assumes "consume_optional fl st (a, os, sep, ea) s following = Inr (st2, c)"
  shows "ns_src_roots st2 =
           (if a = Some SrcRoots then
              (case ea of
                 None \<Rightarrow> map fst (takeWhile (\<lambda>p. is_PA (snd p)) following)
               | Some e \<Rightarrow> [e])
            else ns_src_roots st)"
proof (cases a)
  case None
  with assms show ?thesis
    by (auto simp: consume_optional_def)
next
  case (Some action)
  with assms obtain ts ex where
    ch: "consume_chain action os sep ea following [] = Inr (ts, ex, c)"
    and ta: "take_actions fl (st\<lparr>extras := extras st @ ex\<rparr>) ts = Inr st2"
    by (auto simp: consume_optional_def split: sum.splits)
  show ?thesis
  proof (cases "action = SrcRoots")
    case False
    from consume_chain_other[OF False _ ch] have "\<forall>t \<in> set ts. fst t \<noteq> SrcRoots"
      by simp
    from take_actions_src_roots[OF this ta] False Some show ?thesis
      by simp
  next
    case True
    show ?thesis
    proof (cases ea)
      case None
      with ch True obtain m: "match_argument N_Plus (map snd following) = Inr c"
        and ts: "ts = [(SrcRoots, map fst (take c following))]"
        by (auto split: sum.splits)
      from ta ts have "ns_src_roots st2 = map fst (take c following)"
        by auto
      with match_argument_plus_take[OF m] True Some None show ?thesis
        by simp
    next
      case (Some e)
      with ch True have ts: "ts = [(SrcRoots, [e])]"
        by (auto simp: match_argument_def split: if_splits)
      from ta ts have "ns_src_roots st2 = [e]"
        by auto
      with True \<open>a = Some action\<close> Some show ?thesis
        by simp
    qed
  qed
qed

lemma supplied_option_head:
  "supplied_src_roots cur ((s, PO (a, os, sep, ea)) # following) =
     supplied_src_roots
       (if a = Some SrcRoots then
          (case ea of
             None \<Rightarrow> map fst (takeWhile (\<lambda>p. is_PA (snd p)) following)
           | Some e \<Rightarrow> [e])
        else cur) following"
proof (cases a)
  case None
  then show ?thesis by simp
next
  case (Some action)
  then show ?thesis
    by (cases action; cases ea) simp_all
qed

lemma PA_not_PO: "is_PA p \<Longrightarrow> \<not> is_PO p"
  by (cases p) auto

lemma parse_loop_src_roots:
  "parse_loop fl st rest = Inr st' \<Longrightarrow>
     ns_src_roots st' = supplied_src_roots (ns_src_roots st) rest"
proof (induction fl st rest arbitrary: st' rule: parse_loop.induct)
  case (1 fl st rest)
  let ?n = "length (takeWhile (\<lambda>p. \<not> is_PO (snd p)) rest)"
  show ?case
  proof (cases "list_ex (\<lambda>p. is_PO (snd p)) rest")
    case False
    with "1.prems" have "ns_src_roots st' = ns_src_roots (fst (consume_positionals st rest))"
      by (subst (asm) parse_loop.simps) (auto split: prod.splits)
    with False show ?thesis
      by (simp add: consume_positionals_src_roots supplied_no_option)
  next
    case True
    then have nn: "\<not> \<not> list_ex (\<lambda>p. is_PO (snd p)) rest" by simp
    show ?thesis
    proof (cases "?n \<noteq> 0 \<and> 0 < snd (consume_positionals st rest)")
      case c: True
      from "1.prems" True c
      have p: "parse_loop fl (fst (consume_positionals st rest))
                 (drop (snd (consume_positionals st rest)) rest) = Inr st'"
        by (subst (asm) parse_loop.simps) simp
      from "1.IH"(1)[OF nn refl c p]
      show ?thesis
        by (simp add: consume_positionals_src_roots supplied_drop[OF consume_positionals_no_option])
    next
      case c: False
      define st1 where "st1 = (if ?n \<noteq> 0 then st\<lparr>extras := extras st @ map fst (take ?n rest)\<rparr> else st)"
      from first_option[OF True] obtain s tup following where
        d: "drop ?n rest = (s, PO tup) # following"
        by blast
      obtain a os sep ea where tup: "tup = (a, os, sep, ea)"
        by (cases tup)
      from "1.prems" True c d
      have e: "(case consume_optional fl st1 tup s following of
                  Inl e \<Rightarrow> Inl e
                | Inr (st2, c) \<Rightarrow> parse_loop fl st2 (drop c following)) = Inr st'"
        by (subst (asm) parse_loop.simps) (auto simp: st1_def Let_def split: if_splits)
      then obtain st2 k where co: "consume_optional fl st1 tup s following = Inr (st2, k)"
        and p: "parse_loop fl st2 (drop k following) = Inr st'"
        by (auto split: sum.splits)
      from consume_optional_inv[OF co] have pa: "list_all (\<lambda>p. is_PA (snd p)) (take k following)"
        by simp
      then have npo: "\<forall>p \<in> set (take k following). \<not> is_PO (snd p)"
        using PA_not_PO by (fastforce simp: list_all_iff)
      have x1: "ns_src_roots st1 = ns_src_roots st"
        by (simp add: st1_def)
      have pre: "\<forall>p \<in> set (take ?n rest). \<not> is_PO (snd p)"
        by (simp add: takeWhile_eq_take[symmetric]) (auto dest: set_takeWhileD)
      have "ns_src_roots st' = supplied_src_roots (ns_src_roots st2) (drop k following)"
        by (rule "1.IH"(2)[OF nn refl c st1_def d refl refl co refl p])
      also have "\<dots> = supplied_src_roots (ns_src_roots st2) following"
        by (rule supplied_drop[OF npo])
      also have "\<dots> = supplied_src_roots (ns_src_roots st1) ((s, PO tup) # following)"
        using consume_optional_src_roots_value[OF co[unfolded tup]]
        by (simp add: tup supplied_option_head)
      also have "\<dots> = supplied_src_roots (ns_src_roots st) (drop ?n rest)"
        by (simp add: d x1)
      also have "\<dots> = supplied_src_roots (ns_src_roots st) rest"
        by (rule supplied_drop[OF pre])
      finally show ?thesis .
    qed
  qed
qed

lemma parse_coverage_args_src_roots:
  assumes "classify argv = Inr rest" and "parse_coverage_args fl argv = Inr d"
  shows "src_roots d = supplied_src_roots [''src/main/java'', ''src/test/java''] rest"
proof -
  from assms obtain st where l: "parse_loop fl initial_namespace rest = Inr st"
    and x: "src_roots d = ns_src_roots st"
    by (auto simp: parse_coverage_args_def split: sum.splits option.splits if_splits)
  from parse_loop_src_roots[OF l] x show ?thesis
    by (simp add: initial_namespace_def)
qed

lemma parse_coverage_args_classified:
  assumes "parse_coverage_args fl argv = Inr d"
  shows "\<exists>rest. classify argv = Inr rest"
  using assms by (auto simp: parse_coverage_args_def split: sum.splits)

lemma main_constructs_reporter:
  assumes "parse_coverage_args (py_float env) (drop 1 (effective_argv env argv)) = Inr d"
    and "\<forall>p \<in> set (coverage_xml d). xml_parse env p = Inr (f p)"
  shows "Ev_XmlCoverageReporter (map f (coverage_xml d)) (Some (src_roots d))
           \<in> set (fst (main env argv directory))"
proof -
  obtain tr res where g: "generate_coverage_report env
                  (coverage_xml d) (compare_branch d) (html_report d)
                  (external_css_file d) (ignore_staged d) (ignore_unstaged d)
                  (exclude d) (Some (src_roots d)) = (tr, res)"
    by (cases "generate_coverage_report env
                  (coverage_xml d) (compare_branch d) (html_report d)
                  (external_css_file d) (ignore_staged d) (ignore_unstaged d)
                  (exclude d) (Some (src_roots d))")
  from generate_coverage_report_parsed[OF parse_roots_ok[OF assms(2)],
      of "compare_branch d" "html_report d" "external_css_file d" "ignore_staged d"
         "ignore_unstaged d" "exclude d" "Some (src_roots d)"] g
  have "Ev_XmlCoverageReporter (map f (coverage_xml d)) (Some (src_roots d)) \<in> set tr"
    by auto
  with assms(1) g show ?thesis
    by (auto simp: main_def split: sum.splits)
qed

lemma first_match_wins:
  assumes "\<forall>r' \<in> set rs1. \<not> changed (join_root r' p)" and "changed (join_root r p)"
  shows "first_match changed (rs1 @ r # rs2) p = Some (join_root r p)"
  using assms by (induction rs1) auto

lemma first_match_none:
  "\<forall>r \<in> set rs. \<not> changed (join_root r p) \<Longrightarrow> first_match changed rs p = None"
  by (induction rs) auto

text \<open>
  Claim C4. For every command line that parses, the \<^verbatim>\<open>src_roots\<close> returned by
  \<^verbatim>\<open>parse_coverage_args\<close> is the list supplied by the last \<^verbatim>\<open>--src-roots\<close> option, as typed
  and in the same order, and the default \<^verbatim>\<open>['src/main/java', 'src/test/java']\<close> when the
  option does not occur. Every \<^verbatim>\<open>XmlCoverageReporter\<close> that \<^verbatim>\<open>main\<close> constructs is given
  exactly that list, and \<^verbatim>\<open>main\<close> does construct it, with that list, whenever the coverage
  files parse; \<^verbatim>\<open>generate_coverage_report\<close> hands its \<^verbatim>\<open>src_roots\<close> argument to the reporter
  unchanged. In particular coverage paths followed by \<^verbatim>\<open>--src-roots\<close> and directories give
  those directories, and coverage paths alone give the default. Downstream, path
  reconciliation tries the roots in that order and the first match wins.
\<close>

theorem src_roots_passed_in_order:
  "(classify argv = Inr rest \<and> parse_coverage_args fl argv = Inr d \<longrightarrow>
      src_roots d = supplied_src_roots [''src/main/java'', ''src/test/java''] rest) \<and>
   ((\<forall>p \<in> set rest. \<forall>os sep ea. snd p \<noteq> PO (Some SrcRoots, os, sep, ea)) \<longrightarrow>
      supplied_src_roots cur rest = cur) \<and>
   (\<forall>xs sr. Ev_XmlCoverageReporter xs sr \<in> set (fst (main env args directory)) \<longrightarrow>
      (\<exists>rest' d'. classify (drop 1 (effective_argv env args)) = Inr rest' \<and>
                  parse_coverage_args (py_float env) (drop 1 (effective_argv env args)) = Inr d' \<and>
                  sr = Some (src_roots d') \<and>
                  src_roots d' = supplied_src_roots [''src/main/java'', ''src/test/java''] rest')) \<and>
   (parse_coverage_args (py_float env) (drop 1 (effective_argv env args)) = Inr dm \<and>
    (\<forall>p \<in> set (coverage_xml dm). xml_parse env p = Inr (f p)) \<longrightarrow>
      Ev_XmlCoverageReporter (map f (coverage_xml dm)) (Some (src_roots dm))
        \<in> set (fst (main env args directory))) \<and>
   (\<forall>xs sr'. Ev_XmlCoverageReporter xs sr'
                \<in> set (fst (generate_coverage_report env xml cb html css st ust ex sr))
              \<longrightarrow> sr' = sr) \<and>
   (paths \<noteq> [] \<and> (\<forall>a \<in> set paths. \<not> startswith a ''-'') \<and>
    roots \<noteq> [] \<and> (\<forall>a \<in> set roots. \<not> startswith a ''-'') \<and> fl ''0'' = Some z \<longrightarrow>
      (\<exists>d. parse_coverage_args fl (paths @ ''--src-roots'' # roots) = Inr d \<and> src_roots d = roots)) \<and>
   (paths \<noteq> [] \<and> (\<forall>a \<in> set paths. \<not> startswith a ''-'') \<and> fl ''0'' = Some z \<longrightarrow>
      (\<exists>d. parse_coverage_args fl paths = Inr d \<and>
            src_roots d = [''src/main/java'', ''src/test/java''])) \<and>
   (\<not> changed q \<and> (\<forall>r' \<in> set rs1. \<not> changed (join_root r' q)) \<and> changed (join_root r q) \<longrightarrow>
      resolve_path changed (rs1 @ r # rs2) q = join_root r q)"
proof (intro conjI impI allI)
  assume "classify argv = Inr rest \<and> parse_coverage_args fl argv = Inr d"
  then show "src_roots d = supplied_src_roots [''src/main/java'', ''src/test/java''] rest"
    using parse_coverage_args_src_roots by blast
next
  assume "\<forall>p \<in> set rest. \<forall>os sep ea. snd p \<noteq> PO (Some SrcRoots, os, sep, ea)"
  then show "supplied_src_roots cur rest = cur"
    by (rule supplied_absent)
next
  fix xs sr
  assume "Ev_XmlCoverageReporter xs sr \<in> set (fst (main env args directory))"
  from main_reporter[OF this] obtain d' where
    p: "parse_coverage_args (py_float env) (drop 1 (effective_argv env args)) = Inr d'"
    and s: "sr = Some (src_roots d')"
    by blast
  from parse_coverage_args_classified[OF p] obtain rest' where
    c: "classify (drop 1 (effective_argv env args)) = Inr rest'"
    by blast
  from parse_coverage_args_src_roots[OF c p] p s c
  show "\<exists>rest' d'. classify (drop 1 (effective_argv env args)) = Inr rest' \<and>
                  parse_coverage_args (py_float env) (drop 1 (effective_argv env args)) = Inr d' \<and>
                  sr = Some (src_roots d') \<and>
                  src_roots d' = supplied_src_roots [''src/main/java'', ''src/test/java''] rest'"
    by blast
next
  assume "parse_coverage_args (py_float env) (drop 1 (effective_argv env args)) = Inr dm \<and>
    (\<forall>p \<in> set (coverage_xml dm). xml_parse env p = Inr (f p))"
  then show "Ev_XmlCoverageReporter (map f (coverage_xml dm)) (Some (src_roots dm))
        \<in> set (fst (main env args directory))"
    using main_constructs_reporter by blast
next
  fix xs sr'
  assume "Ev_XmlCoverageReporter xs sr'
            \<in> set (fst (generate_coverage_report env xml cb html css st ust ex sr))"
  then show "sr' = sr"
    using generate_coverage_report_reporter by blast
next
  assume a: "paths \<noteq> [] \<and> (\<forall>a \<in> set paths. \<not> startswith a ''-'') \<and>
    roots \<noteq> [] \<and> (\<forall>a \<in> set roots. \<not> startswith a ''-'') \<and> fl ''0'' = Some z"
  then have a1: "paths \<noteq> []" and a2: "\<forall>a \<in> set paths. \<not> startswith a ''-''"
    and a3: "roots \<noteq> []" and a4: "\<forall>a \<in> set roots. \<not> startswith a ''-''" and a5: "fl ''0'' = Some z"
    by simp_all
  from parse_src_roots[of paths roots fl z, OF a1 a2 a3 a4 a5]
  show "\<exists>d. parse_coverage_args fl (paths @ ''--src-roots'' # roots) = Inr d \<and> src_roots d = roots"
    by simp
next
  assume a: "paths \<noteq> [] \<and> (\<forall>a \<in> set paths. \<not> startswith a ''-'') \<and> fl ''0'' = Some z"
  then have a1: "paths \<noteq> []" and a2: "\<forall>a \<in> set paths. \<not> startswith a ''-''"
    and a5: "fl ''0'' = Some z"
    by simp_all
  from parse_plain[of paths fl z, OF a1 a2 a5]
  show "\<exists>d. parse_coverage_args fl paths = Inr d \<and>
            src_roots d = [''src/main/java'', ''src/test/java'']"
    by simp
next
  assume "\<not> changed q \<and> (\<forall>r' \<in> set rs1. \<not> changed (join_root r' q)) \<and> changed (join_root r q)"
  then show "resolve_path changed (rs1 @ r # rs2) q = join_root r q"
    by (simp add: resolve_path_def first_match_wins)
qed

text \<open>
  A command line with \<^verbatim>\<open>--html-report r.html --src-roots b a\<close>: the parser returns
  \<^verbatim>\<open>['b', 'a']\<close>, \<^verbatim>\<open>main\<close> constructs the reporter with \<^verbatim>\<open>['b', 'a']\<close>, and with the roots
  \<^verbatim>\<open>c\<close>, \<^verbatim>\<open>b\<close>, \<^verbatim>\<open>a\<close> the file \<^verbatim>\<open>X.java\<close>, changed under \<^verbatim>\<open>b\<close> and under \<^verbatim>\<open>a\<close>, resolves
  to \<^verbatim>\<open>b/X.java\<close>.
\<close>

theorem src_roots_passed_in_order_witness:
  "classify [''coverage.xml'', ''--html-report'', ''r.html'', ''--src-roots'', ''b'', ''a'']
     = Inr [(''coverage.xml'', PA),
            (''--html-report'', PO (Some HtmlReport, ''--html-report'', None, None)),
            (''r.html'', PA),
            (''--src-roots'', PO (Some SrcRoots, ''--src-roots'', None, None)),
            (''b'', PA), (''a'', PA)] \<and>
   parse_coverage_args (py_float sample_env)
       [''coverage.xml'', ''--html-report'', ''r.html'', ''--src-roots'', ''b'', ''a'']
     = Inr \<lparr> coverage_xml = [''coverage.xml''], html_report = Some ''r.html'',
             external_css_file = None, compare_branch = ''origin/master'', fail_under = Fin 0,
             ignore_staged = False, ignore_unstaged = False, exclude = None,
             src_roots = [''b'', ''a''] \<rparr> \<and>
   supplied_src_roots [''src/main/java'', ''src/test/java'']
       [(''coverage.xml'', PA),
        (''--html-report'', PO (Some HtmlReport, ''--html-report'', None, None)),
        (''r.html'', PA),
        (''--src-roots'', PO (Some SrcRoots, ''--src-roots'', None, None)),
        (''b'', PA), (''a'', PA)] = [''b'', ''a''] \<and>
   xml_parse sample_env ''coverage.xml'' = Inr ''coverage.xml'' \<and>
   Ev_XmlCoverageReporter [''coverage.xml''] (Some [''b'', ''a''])
     \<in> set (fst (main sample_env
          (Some [''diff-cover'', ''coverage.xml'', ''--html-report'', ''r.html'', ''--src-roots'', ''b'', ''a''])
          None)) \<and>
   \<not> sample_changed ''X.java'' \<and> \<not> sample_changed (join_root ''c'' ''X.java'') \<and>
   sample_changed (join_root ''b'' ''X.java'') \<and>
   resolve_path sample_changed [''c'', ''b'', ''a''] ''X.java'' = ''b/X.java''"
proof -
  let ?argv = "[''coverage.xml'', ''--html-report'', ''r.html'', ''--src-roots'', ''b'', ''a'']"
  let ?rest = "[(''coverage.xml'', PA),
            (''--html-report'', PO (Some HtmlReport, ''--html-report'', None, None)),
            (''r.html'', PA),
            (''--src-roots'', PO (Some SrcRoots, ''--src-roots'', None, None)),
            (''b'', PA), (''a'', PA)]"
  let ?d = "\<lparr> coverage_xml = [''coverage.xml''], html_report = Some ''r.html'',
             external_css_file = None, compare_branch = ''origin/master'', fail_under = Fin 0,
             ignore_staged = False, ignore_unstaged = False, exclude = None,
             src_roots = [''b'', ''a''] \<rparr>"
  have c: "classify ?argv = Inr ?rest"
    by code_simp
  have p: "parse_coverage_args (py_float sample_env) ?argv = Inr ?d"
    by code_simp
  have e: "drop 1 (effective_argv sample_env (Some (''diff-cover'' # ?argv))) = ?argv"
    by (simp add: effective_argv_def)
  have x: "\<forall>p \<in> set (coverage_xml ?d). xml_parse sample_env p = Inr ((\<lambda>p. p) p)"
    by (simp add: sample_env_def)
  have n: "\<not> sample_changed ''X.java''" "\<not> sample_changed (join_root ''c'' ''X.java'')"
    and y: "sample_changed (join_root ''b'' ''X.java'')"
    by (simp_all add: sample_changed_def join_root_def)
  note t = src_roots_passed_in_order[where argv = ?argv and rest = ?rest
      and fl = "py_float sample_env" and d = ?d and env = sample_env
      and args = "Some (''diff-cover'' # ?argv)" and directory = None and dm = ?d
      and f = "\<lambda>p. p" and changed = sample_changed and q = "''X.java''"
      and ?rs1.0 = "[''c'']" and r = "''b''" and ?rs2.0 = "[''a'']"]
  from t c p have s: "supplied_src_roots [''src/main/java'', ''src/test/java''] ?rest = [''b'', ''a'']"
    by simp
  from t p x have ev: "Ev_XmlCoverageReporter [''coverage.xml''] (Some [''b'', ''a''])
     \<in> set (fst (main sample_env (Some (''diff-cover'' # ?argv)) None))"
    unfolding e by simp
  from t n y have rp: "resolve_path sample_changed [''c'', ''b'', ''a''] ''X.java'' = ''b/X.java''"
    by (simp add: join_root_def)
  have xp: "xml_parse sample_env ''coverage.xml'' = Inr ''coverage.xml''"
    by (simp add: sample_env_def)
  from c p s xp ev n y rp show ?thesis
    by (simp only: simp_thms)
qed

end
